theory Spec2Isabelle
  imports Main "HOL-Library.AList" "HOL-Library.Multiset" "HOL-Library.Word"
begin

section \<open>JavaScript values\<close>

text \<open>
  The values that flow through \<^verbatim>\<open>index.js\<close>: handler payloads given to
  \<^verbatim>\<open>res.json\<close>, the parsed \<^verbatim>\<open>settings.json\<close> and the exports of the plugin
  files. Numbers are the safe integers, from \<open>- 2\<^sup>5\<^sup>3\<close> to \<open>2\<^sup>5\<^sup>3 - 1\<close>, as signed
  words of 54 bits (no fractions, no NaN); strings are byte strings, read as ASCII.
  An object is the list of its own enumerable properties in insertion order; a key
  written twice holds its last value, as in an object literal. A function is opaque
  and carries only its source text (what \<^verbatim>\<open>String(f)\<close> returns); it has no
  properties of its own.
\<close>

datatype jsval =
    JUndefined
  | JNull
  | JBool bool
  | JNum "54 word"
  | JStr string
  | JArr "jsval list"
  | JObj "(string \<times> jsval) list"
  | JFun string

text \<open>ToBoolean, as used by \<^verbatim>\<open>&&\<close>, \<^verbatim>\<open>||\<close> and \<^verbatim>\<open>!\<close>.\<close>

fun truthy :: "jsval \<Rightarrow> bool" where
  "truthy JUndefined = False"
| "truthy JNull = False"
| "truthy (JBool b) = b"
| "truthy (JNum n) = (n \<noteq> 0)"
| "truthy (JStr s) = (s \<noteq> [])"
| "truthy (JArr xs) = True"
| "truthy (JObj ps) = True"
| "truthy (JFun f) = True"

text \<open>The \<^verbatim>\<open>typeof\<close> operator: null and arrays are \<^verbatim>\<open>'object'\<close>.\<close>

fun typeof :: "jsval \<Rightarrow> string" where
  "typeof JUndefined = ''undefined''"
| "typeof JNull = ''object''"
| "typeof (JBool b) = ''boolean''"
| "typeof (JNum n) = ''number''"
| "typeof (JStr s) = ''string''"
| "typeof (JArr xs) = ''object''"
| "typeof (JObj ps) = ''object''"
| "typeof (JFun f) = ''function''"

text \<open>Decimal digits of a natural number, and \<^verbatim>\<open>String(n)\<close> for an integer.\<close>

definition digit :: "nat \<Rightarrow> char" where
  "digit d = ''0123456789'' ! d"

fun show_nat :: "nat \<Rightarrow> string" where
  "show_nat n =
     (if n < 10 then [digit n] else show_nat (n div 10) @ [digit (n mod 10)])"

declare show_nat.simps [simp del]

definition show_int :: "int \<Rightarrow> string" where
  "show_int i = (if i < 0 then CHR ''-'' # show_nat (nat (- i)) else show_nat (nat i))"

text \<open>
  \<^verbatim>\<open>String(v)\<close>, as a template literal and a property key apply it. A safe integer
  prints as its decimal digits. (An object with a \<^verbatim>\<open>toString\<close> of its own is outside
  the model.)
\<close>

fun join_comma :: "string list \<Rightarrow> string" where
  "join_comma [] = []"
| "join_comma [x] = x"
| "join_comma (x # y # ys) = x @ '','' @ join_comma (y # ys)"

fun to_string :: "jsval \<Rightarrow> string" where
  "to_string JUndefined = ''undefined''"
| "to_string JNull = ''null''"
| "to_string (JBool b) = (if b then ''true'' else ''false'')"
| "to_string (JNum n) = show_int (sint n)"
| "to_string (JStr s) = s"
| "to_string (JArr xs) =
     join_comma (map (\<lambda>x. if x = JNull \<or> x = JUndefined then [] else to_string x) xs)"
| "to_string (JObj ps) = ''[object Object]''"
| "to_string (JFun f) = f"

text \<open>
  The own enumerable properties of a value, as the spread \<^verbatim>\<open>...data\<close> copies them:
  an object's properties, an array's elements under their indices.
\<close>

fun own_props :: "jsval \<Rightarrow> (string \<times> jsval) list" where
  "own_props (JObj ps) = ps"
| "own_props (JArr xs) = zip (map show_nat [0..<length xs]) xs"
| "own_props v = []"

text \<open>
  Reading \<^verbatim>\<open>v.k\<close> on a value that is neither null nor undefined, for the property
  names the program reads (\<^verbatim>\<open>status\<close>, \<^verbatim>\<open>apiSettings\<close>, \<^verbatim>\<open>creator\<close>, \<^verbatim>\<open>meta\<close>,
  \<^verbatim>\<open>onStart\<close>, \<^verbatim>\<open>path\<close>, \<^verbatim>\<open>method\<close>, \<^verbatim>\<open>name\<close>, \<^verbatim>\<open>description\<close>,
  \<^verbatim>\<open>category\<close>, \<^verbatim>\<open>author\<close>): none of them is inherited from
  \<^verbatim>\<open>Object.prototype\<close> or built into arrays, strings, numbers or booleans, so a
  missing own property reads as undefined.
\<close>

definition get_prop :: "jsval \<Rightarrow> string \<Rightarrow> jsval" where
  "get_prop v k = (case map_of (rev (own_props v)) k of Some x \<Rightarrow> x | None \<Rightarrow> JUndefined)"

text \<open>Writing one property of an object under construction: an existing key keeps its place.\<close>

definition set_prop :: "string \<times> jsval \<Rightarrow> (string \<times> jsval) list \<Rightarrow> (string \<times> jsval) list" where
  "set_prop kv ps = AList.update (fst kv) (snd kv) ps"

section \<open>The response envelope (index.js, lines 26-40)\<close>

text \<open>
  \<^verbatim>\<open>settings\<close> is the object parsed from \<^verbatim>\<open>settings.json\<close>, given by its
  properties. \<^verbatim>\<open>settings.apiSettings?.creator || "Created Using Rynn UI"\<close>:
\<close>

definition creator :: "(string \<times> jsval) list \<Rightarrow> jsval" where
  "creator settings =
     (let a = get_prop (JObj settings) ''apiSettings'';
          c = (if a = JNull \<or> a = JUndefined then JUndefined else get_prop a ''creator'')
      in if truthy c then c else JStr ''Created Using Rynn UI'')"

text \<open>
  The patched \<^verbatim>\<open>res.json\<close>: the value it hands to the original \<^verbatim>\<open>res.json\<close>.
  The object literal writes \<^verbatim>\<open>status\<close>, then \<^verbatim>\<open>creator\<close>, then every own
  property of \<^verbatim>\<open>data\<close>. The list is in the order of writing; the program never
  enumerates the object (the serializer does, index keys first).
\<close>

definition res_json :: "(string \<times> jsval) list \<Rightarrow> jsval \<Rightarrow> jsval" where
  "res_json settings data =
     (if truthy data \<and> typeof data = ''object'' then
        JObj (fold set_prop (own_props data)
          [(''status'', if truthy (get_prop data ''status'') then get_prop data ''status''
                        else JNum 200),
           (''creator'', creator settings)])
      else data)"

section \<open>Strings and paths\<close>

text \<open>\<^verbatim>\<open>s.split(c)\<close> for a one-character separator: always at least one piece.\<close>

fun split_on :: "char \<Rightarrow> string \<Rightarrow> string list" where
  "split_on c [] = [[]]"
| "split_on c (x # xs) =
     (if x = c then [] # split_on c xs
      else (case split_on c xs of
              [] \<Rightarrow> [[x]]
            | y # ys \<Rightarrow> (x # y) # ys))"

text \<open>
  Indexing the array of pieces, \<^verbatim>\<open>parts[i]\<close>, inside a string concatenation: an index
  out of range reads undefined, which concatenates as the text \<^verbatim>\<open>undefined\<close>.
\<close>

definition piece :: "string list \<Rightarrow> nat \<Rightarrow> string" where
  "piece parts i = (case drop i parts of [] \<Rightarrow> ''undefined'' | x # _ \<Rightarrow> x)"

text \<open>\<^verbatim>\<open>s.toLowerCase()\<close> on ASCII text.\<close>

definition lower_char :: "char \<Rightarrow> char" where
  "lower_char c =
     (case map_of (zip ''ABCDEFGHIJKLMNOPQRSTUVWXYZ'' ''abcdefghijklmnopqrstuvwxyz'') c of
        Some l \<Rightarrow> l
      | None \<Rightarrow> c)"

definition toLowerCase :: "string \<Rightarrow> string" where
  "toLowerCase s = map lower_char s"

text \<open>
  \<^verbatim>\<open>path.extname\<close> on a directory entry's name (which holds no slash): from the last
  dot to the end; empty when there is no dot, when the only dot is the first character,
  and for the name \<^verbatim>\<open>..\<close>.
\<close>

definition extname :: "string \<Rightarrow> string" where
  "extname file =
     (let r = takeWhile (\<lambda>c. c \<noteq> CHR ''.'') (rev file)
      in if length r = length file then []
         else if length r + 1 = length file then []
         else if file = ''..'' then []
         else CHR ''.'' # rev r)"

text \<open>\<^verbatim>\<open>path.join(dir, file)\<close> for a directory path and an entry's name.\<close>

definition path_join :: "string \<Rightarrow> string \<Rightarrow> string" where
  "path_join dir file = dir @ ''/'' @ file"

section \<open>Loading the API modules (index.js, lines 42-89)\<close>

text \<open>
  What \<^verbatim>\<open>require(filePath)\<close> does for a file: it throws a value (any value can be
  thrown; an \<^verbatim>\<open>Error\<close> is an object with a \<^verbatim>\<open>message\<close>), or returns the file's
  exports.
\<close>

datatype load_result = Throws jsval | Exports jsval

text \<open>The error of the engine on a call or a property read that is not possible.\<close>

datatype js_error = TypeError

text \<open>
  The text \<^verbatim>\<open>${error.message}\<close> of line 81: the message of a TypeError of the
  engine, whose wording is the engine's, or a given text.
\<close>

datatype message = TypeError_message | Message string

text \<open>
  The directory tree under the \<^verbatim>\<open>api\<close> folder, each level in the order
  \<^verbatim>\<open>fs.readdirSync\<close> lists it. \<open>Unreadable\<close> is an entry on which
  \<^verbatim>\<open>fs.statSync\<close> throws (a dangling link), or a directory that
  \<^verbatim>\<open>fs.readdirSync\<close> cannot list.
\<close>

datatype fs_entry =
    Dir string "fs_entry list"
  | File string load_result
  | Unreadable string

text \<open>The two diagnostics of the scan: \<^verbatim>\<open>console.warn\<close> (line 57) and
  \<^verbatim>\<open>console.error\<close> (line 81), each with the file's path.\<close>

datatype diag = Skipped string | Error_loading string message

text \<open>An entry of \<^verbatim>\<open>apiModules\<close> (lines 70-77).\<close>

record api_module =
  name :: jsval
  description :: jsval
  category :: jsval
  path :: string
  author :: jsval
  http_method :: jsval

text \<open>
  A registration \<^verbatim>\<open>app[method](routePath, handler)\<close> that returned: the method name,
  the route path, and the file whose \<^verbatim>\<open>onStart\<close> the handler calls.
\<close>

record route =
  route_method :: string
  route_path :: string
  route_file :: string

text \<open>
  The Express application is not part of the repository; it is a parameter. For a
  member name and a path, \<open>app m p\<close> tells whether \<^verbatim>\<open>app[m](p, handler)\<close> throws
  (\<^verbatim>\<open>app[m]\<close> is not a function, or the router refuses the path pattern), always an
  \<^verbatim>\<open>Error\<close>, and with which message; \<open>None\<close> means the call returns.
\<close>

type_synonym express = "string \<Rightarrow> string \<Rightarrow> message option"

text \<open>The mutable globals of the scan, and the console.\<close>

record state =
  routes :: "route list"
  apiModules :: "api_module list"
  totalRoutes :: nat
  console :: "diag list"

definition init :: state where
  "init = \<lparr>routes = [], apiModules = [], totalRoutes = 0, console = []\<rparr>"

text \<open>
  The body of the \<^verbatim>\<open>try\<close> block (lines 55-79) reads no mutable global; what it does is
  decided by the file alone: it returns after the warning, or an error reaches the
  \<^verbatim>\<open>catch\<close>, or the route is registered and the catalog entry pushed. The
  \<^verbatim>\<open>catch\<close> (line 81) reads \<^verbatim>\<open>error.message\<close>: when the value thrown is null or
  undefined this read throws in its turn, and that error is caught by nothing
  (\<open>Uncaught\<close>).
\<close>

datatype outcome = Bound route api_module | Rejected diag | Uncaught

definition is_nullish :: "jsval \<Rightarrow> bool" where
  "is_nullish v = (v = JNull \<or> v = JUndefined)"

text \<open>
  The test of line 56 on the exports of a file:
  \<^verbatim>\<open>!module.meta || !module.onStart || typeof module.onStart !== 'function'\<close>.
\<close>

definition invalid_format :: "jsval \<Rightarrow> bool" where
  "invalid_format module =
     (\<not> truthy (get_prop module ''meta'') \<or> \<not> truthy (get_prop module ''onStart'')
      \<or> typeof (get_prop module ''onStart'') \<noteq> ''function'')"

text \<open>
  Lines 61-77 for a module that passed the test. \<^verbatim>\<open>meta.path.split\<close> and
  \<^verbatim>\<open>(...).toLowerCase\<close> exist on strings only: on any other value the call is a
  TypeError.
\<close>

definition bind_module :: "express \<Rightarrow> string \<Rightarrow> jsval \<Rightarrow> outcome" where
  "bind_module app filePath meta =
     (case get_prop meta ''path'' of
        JStr p \<Rightarrow>
          (let basePath = piece (split_on CHR ''?'' p) 0;
               routePath = ''/api'' @ basePath;
               m = (if truthy (get_prop meta ''method'') then get_prop meta ''method''
                    else JStr ''get'')
           in case m of
                JStr ms \<Rightarrow>
                  (let lmethod = toLowerCase ms
                   in case app lmethod routePath of
                        Some e \<Rightarrow> Rejected (Error_loading filePath e)
                      | None \<Rightarrow>
                          Bound
                            \<lparr>route_method = lmethod, route_path = routePath,
                             route_file = filePath\<rparr>
                            \<lparr>name = get_prop meta ''name'',
                             description = get_prop meta ''description'',
                             category = get_prop meta ''category'',
                             path = routePath @
                               (if CHR ''?'' \<in> set p
                                then ''?'' @ piece (split_on CHR ''?'' p) 1 else []),
                             author = get_prop meta ''author'', http_method = m\<rparr>)
              | _ \<Rightarrow> Rejected (Error_loading filePath TypeError_message))
      | _ \<Rightarrow> Rejected (Error_loading filePath TypeError_message))"

text \<open>
  The \<^verbatim>\<open>try\<close> block and its \<^verbatim>\<open>catch\<close> (lines 54-82). A value thrown by
  \<^verbatim>\<open>require\<close> reaches the \<^verbatim>\<open>catch\<close>, which logs the path and the text of
  \<^verbatim>\<open>error.message\<close> (of a value without a message, the text \<^verbatim>\<open>undefined\<close>); on null
  and undefined that read throws. Reading \<^verbatim>\<open>module.meta\<close> on exports that are null or
  undefined is a TypeError, caught and logged.
\<close>

definition try_load :: "express \<Rightarrow> string \<Rightarrow> load_result \<Rightarrow> outcome" where
  "try_load app filePath r =
     (case r of
        Throws error \<Rightarrow>
          if is_nullish error then Uncaught
          else Rejected (Error_loading filePath (Message (to_string (get_prop error ''message''))))
      | Exports module \<Rightarrow>
          if is_nullish module then Rejected (Error_loading filePath TypeError_message)
          else if invalid_format module then Rejected (Skipped filePath)
          else bind_module app filePath (get_prop module ''meta''))"

text \<open>
  The effect of one \<^verbatim>\<open>.js\<close> file on the globals; an uncaught error leaves them as
  they are.
\<close>

definition load_file :: "express \<Rightarrow> string \<Rightarrow> load_result \<Rightarrow> state \<Rightarrow> state" where
  "load_file app filePath r s =
     (case try_load app filePath r of
        Rejected d \<Rightarrow> s\<lparr>console := console s @ [d]\<rparr>
      | Bound rt e \<Rightarrow>
          s\<lparr>routes := routes s @ [rt], apiModules := apiModules s @ [e],
            totalRoutes := totalRoutes s + 1\<rparr>
      | Uncaught \<Rightarrow> s)"

text \<open>
  \<^verbatim>\<open>loadModules\<close>: the \<^verbatim>\<open>forEach\<close> over a directory listing. \<^verbatim>\<open>statSync\<close> and
  \<^verbatim>\<open>readdirSync\<close> stand outside the \<^verbatim>\<open>try\<close>: their error leaves the scan
  (\<open>Inl\<close>, with the path), and so does the error of a \<^verbatim>\<open>catch\<close> that fails.
\<close>

fun loadModules :: "express \<Rightarrow> string \<Rightarrow> fs_entry list \<Rightarrow> state \<Rightarrow> string + state"
  and load_entry :: "express \<Rightarrow> string \<Rightarrow> fs_entry \<Rightarrow> state \<Rightarrow> string + state" where
  "loadModules app dir [] s = Inr s"
| "loadModules app dir (e # es) s =
     (case load_entry app dir e s of
        Inl err \<Rightarrow> Inl err
      | Inr s' \<Rightarrow> loadModules app dir es s')"
| "load_entry app dir (Unreadable file) s = Inl (path_join dir file)"
| "load_entry app dir (Dir file es) s = loadModules app (path_join dir file) es s"
| "load_entry app dir (File file r) s =
     (if extname file = ''.js'' then
        (if try_load app (path_join dir file) r = Uncaught then Inl (path_join dir file)
         else Inr (load_file app (path_join dir file) r s))
      else Inr s)"

section \<open>The catalog endpoint (index.js, lines 91-107)\<close>

text \<open>
  \<^verbatim>\<open>categories[module.category]\<close> turns the category into a property key by
  \<open>to_string\<close>.
\<close>

text \<open>
  \<^verbatim>\<open>categories\<close> starts as \<^verbatim>\<open>{}\<close>, which inherits from \<^verbatim>\<open>Object.prototype\<close>.
  Reading one of these keys on it finds the inherited member, which is truthy and has
  no \<^verbatim>\<open>items\<close>.
\<close>

definition object_prototype_keys :: "string list" where
  "object_prototype_keys =
     [''constructor'', ''__defineGetter__'', ''__defineSetter__'', ''hasOwnProperty'',
      ''__lookupGetter__'', ''__lookupSetter__'', ''isPrototypeOf'',
      ''propertyIsEnumerable'', ''toString'', ''valueOf'', ''__proto__'',
      ''toLocaleString'']"

text \<open>An element of \<^verbatim>\<open>items\<close> (lines 98-104) and a value of \<^verbatim>\<open>categories\<close> (line 96).\<close>

record item =
  item_name :: jsval
  item_desc :: jsval
  item_path :: string
  item_author :: jsval
  item_method :: jsval

record catalog_category =
  category_name :: jsval
  items :: "item list"

definition item_of :: "api_module \<Rightarrow> item" where
  "item_of m =
     \<lparr>item_name = name m, item_desc = description m, item_path = path m,
      item_author = author m, item_method = http_method m\<rparr>"

text \<open>
  One round of the \<^verbatim>\<open>forEach\<close> of lines 94-105 on the own properties of
  \<^verbatim>\<open>categories\<close>. The category is created when \<^verbatim>\<open>categories[key]\<close> is falsy: the key
  is neither an own property (whose value, an object, is truthy) nor inherited. Then
  \<^verbatim>\<open>categories[key].items.push\<close>: on an inherited member \<^verbatim>\<open>items\<close> is undefined and
  the call throws a TypeError.
\<close>

definition add_module ::
  "api_module \<Rightarrow> (string \<times> catalog_category) list \<Rightarrow> js_error + (string \<times> catalog_category) list" where
  "add_module m categories =
     (let key = to_string (category m);
          categories' =
            (if map_of categories key = None \<and> key \<notin> set object_prototype_keys
             then categories @ [(key, \<lparr>category_name = category m, items = []\<rparr>)]
             else categories)
      in case map_of categories' key of
           None \<Rightarrow> Inl TypeError
         | Some c \<Rightarrow> Inr (AList.update key (c\<lparr>items := items c @ [item_of m]\<rparr>) categories'))"

fun add_modules ::
  "api_module list \<Rightarrow> (string \<times> catalog_category) list \<Rightarrow> js_error + (string \<times> catalog_category) list" where
  "add_modules [] categories = Inr categories"
| "add_modules (m # ms) categories =
     (case add_module m categories of
        Inl e \<Rightarrow> Inl e
      | Inr categories' \<Rightarrow> add_modules ms categories')"

text \<open>
  \<^verbatim>\<open>Object.values\<close> lists the array-index keys first, in ascending numeric order, then
  the other keys in insertion order. An array index is the decimal text of a number
  below \<open>2\<^sup>3\<^sup>2 - 1\<close>.
\<close>

definition read_nat :: "string \<Rightarrow> nat" where
  "read_nat k = foldl (\<lambda>a c. 10 * a + length (takeWhile (\<lambda>d. d \<noteq> c) ''0123456789'')) 0 k"

definition is_array_index :: "string \<Rightarrow> bool" where
  "is_array_index k =
     (k \<noteq> [] \<and> list_all (\<lambda>c. c \<in> set ''0123456789'') k
      \<and> (k = ''0'' \<or> take 1 k \<noteq> ''0'') \<and> read_nat k < 4294967295)"

definition object_values :: "(string \<times> 'a) list \<Rightarrow> 'a list" where
  "object_values ps =
     map snd (sort_key (\<lambda>p. read_nat (fst p)) (filter (\<lambda>p. is_array_index (fst p)) ps)
              @ filter (\<lambda>p. \<not> is_array_index (fst p)) ps)"

text \<open>The array given to \<^verbatim>\<open>res.json\<close> under \<^verbatim>\<open>categories\<close>, or the error thrown.\<close>

definition build_catalog :: "api_module list \<Rightarrow> js_error + catalog_category list" where
  "build_catalog ms =
     (case add_modules ms [] of
        Inl e \<Rightarrow> Inl e
      | Inr categories \<Rightarrow> Inr (object_values categories))"

definition item_json :: "item \<Rightarrow> jsval" where
  "item_json i =
     JObj [(''name'', item_name i), (''desc'', item_desc i), (''path'', JStr (item_path i)),
           (''author'', item_author i), (''method'', item_method i)]"

definition category_json :: "catalog_category \<Rightarrow> jsval" where
  "category_json c =
     JObj [(''name'', category_name c), (''items'', JArr (map item_json (items c)))]"

text \<open>The handler of \<^verbatim>\<open>GET /api/info\<close>: what reaches the original \<^verbatim>\<open>res.json\<close>.\<close>

definition api_info :: "(string \<times> jsval) list \<Rightarrow> api_module list \<Rightarrow> js_error + jsval" where
  "api_info settings ms =
     (case build_catalog ms of
        Inl e \<Rightarrow> Inl e
      | Inr cs \<Rightarrow> Inr (res_json settings (JObj [(''categories'', JArr (map category_json cs))])))"

text \<open>Every path listed in a catalog.\<close>

definition catalog_paths :: "catalog_category list \<Rightarrow> string list" where
  "catalog_paths cs = concat (map (\<lambda>c. map item_path (items c)) cs)"

section \<open>Notions of the specification\<close>

text \<open>The part of a string before the first occurrence of a character.\<close>

definition before_first :: "char \<Rightarrow> string \<Rightarrow> string" where
  "before_first c s = takeWhile (\<lambda>x. x \<noteq> c) s"

text \<open>
  The files the scan tries to load, with their paths, in traversal order; and a tree
  that can be read throughout.
\<close>

fun candidates :: "string \<Rightarrow> fs_entry list \<Rightarrow> (string \<times> load_result) list"
  and candidates_entry :: "string \<Rightarrow> fs_entry \<Rightarrow> (string \<times> load_result) list" where
  "candidates dir [] = []"
| "candidates dir (e # es) = candidates_entry dir e @ candidates dir es"
| "candidates_entry dir (Unreadable file) = []"
| "candidates_entry dir (Dir file es) = candidates (path_join dir file) es"
| "candidates_entry dir (File file r) =
     (if extname file = ''.js'' then [(path_join dir file, r)] else [])"

fun readable :: "fs_entry list \<Rightarrow> bool"
  and readable_entry :: "fs_entry \<Rightarrow> bool" where
  "readable [] = True"
| "readable (e # es) = (readable_entry e \<and> readable es)"
| "readable_entry (Unreadable file) = False"
| "readable_entry (Dir file es) = readable es"
| "readable_entry (File file r) = True"

definition diag_path :: "diag \<Rightarrow> string" where
  "diag_path d = (case d of Skipped p \<Rightarrow> p | Error_loading p e \<Rightarrow> p)"

definition route_key :: "route \<Rightarrow> string \<times> string" where
  "route_key rt = (route_method rt, route_path rt)"

text \<open>An Express application that accepts every registration.\<close>

definition accept_all :: express where
  "accept_all m p = None"

text \<open>
  A unit as the specification rejects it: its metadata is absent, or its entry point
  is absent, or its entry point is not invocable. Absent is what \<^verbatim>\<open>!x\<close> tests;
  invocable is being a function.
\<close>

definition absent :: "jsval \<Rightarrow> bool" where
  "absent v = (\<not> truthy v)"

definition invocable :: "jsval \<Rightarrow> bool" where
  "invocable v = (case v of JFun f \<Rightarrow> True | _ \<Rightarrow> False)"

definition unit_invalid :: "jsval \<Rightarrow> bool" where
  "unit_invalid u =
     (absent (get_prop u ''meta'') \<or> absent (get_prop u ''onStart'')
      \<or> \<not> invocable (get_prop u ''onStart''))"

text \<open>
  The lowercase of a text: every capital letter \<open>A\<close> to \<open>Z\<close> (codes 65 to 90) is
  replaced by the letter 32 codes further, every other character stays.
\<close>

definition lowercase :: "string \<Rightarrow> string" where
  "lowercase s =
     map (\<lambda>c. if 65 \<le> (of_char c :: nat) \<and> (of_char c :: nat) \<le> 90
              then char_of ((of_char c :: nat) + 32) else c) s"

definition is_ascii :: "string \<Rightarrow> bool" where
  "is_ascii s = list_all (\<lambda>c. (of_char c :: nat) < 128) s"

text \<open>
  The path template of a module and what the binder derives from it: the resolved
  path, \<^verbatim>\<open>/api\<close> and the part before the first \<^verbatim>\<open>?\<close>; the query suffix, \<^verbatim>\<open>?\<close> and the
  text between the first \<^verbatim>\<open>?\<close> and the second, if the template has a \<^verbatim>\<open>?\<close>; the
  catalog path, the resolved path and the query suffix.
\<close>

definition resolved_path :: "string \<Rightarrow> string" where
  "resolved_path p = ''/api'' @ before_first CHR ''?'' p"

definition query_suffix :: "string \<Rightarrow> string" where
  "query_suffix p =
     (if CHR ''?'' \<in> set p
      then CHR ''?'' # before_first CHR ''?'' (drop 1 (dropWhile (\<lambda>x. x \<noteq> CHR ''?'') p))
      else [])"

definition catalog_path :: "string \<Rightarrow> string" where
  "catalog_path p = resolved_path p @ query_suffix p"

definition template :: "load_result \<Rightarrow> string" where
  "template r =
     (case r of
        Exports u \<Rightarrow> (case get_prop (get_prop u ''meta'') ''path'' of JStr p \<Rightarrow> p | _ \<Rightarrow> [])
      | Throws v \<Rightarrow> [])"

text \<open>
  The files that get a route, told from the file alone: the exports can be read, the
  unit is valid, its path is a string, its method is absent or a string, and Express
  accepts the registration of the resolved method at the resolved path. And the files
  whose error no \<^verbatim>\<open>catch\<close> holds: those that throw null or undefined.
\<close>

definition resolved_method :: "jsval \<Rightarrow> string option" where
  "resolved_method mv =
     (if absent mv then Some ''get''
      else case mv of JStr ms \<Rightarrow> Some (lowercase ms) | _ \<Rightarrow> None)"

definition bindable :: "express \<Rightarrow> load_result \<Rightarrow> bool" where
  "bindable app r =
     (case r of
        Throws v \<Rightarrow> False
      | Exports u \<Rightarrow>
          \<not> is_nullish u \<and> \<not> unit_invalid u
          \<and> (case get_prop (get_prop u ''meta'') ''path'' of
                JStr p \<Rightarrow>
                  (case resolved_method (get_prop (get_prop u ''meta'') ''method'') of
                     Some m \<Rightarrow> app m (resolved_path p) = None
                   | None \<Rightarrow> False)
              | _ \<Rightarrow> False))"

definition throws_nullish :: "load_result \<Rightarrow> bool" where
  "throws_nullish r = (case r of Throws v \<Rightarrow> is_nullish v | Exports u \<Rightarrow> False)"

definition catchable :: "(string \<times> load_result) list \<Rightarrow> bool" where
  "catchable cs = list_all (\<lambda>c. \<not> throws_nullish (snd c)) cs"

text \<open>The scan as the list of its files: each is loaded in turn.\<close>

definition load_files :: "express \<Rightarrow> (string \<times> load_result) list \<Rightarrow> state \<Rightarrow> state" where
  "load_files app cs s = fold (\<lambda>c. load_file app (fst c) (snd c)) cs s"

definition outcomes :: "express \<Rightarrow> (string \<times> load_result) list \<Rightarrow> outcome list" where
  "outcomes app cs = map (\<lambda>c. try_load app (fst c) (snd c)) cs"

fun bound_routes :: "outcome list \<Rightarrow> route list" where
  "bound_routes [] = []"
| "bound_routes (Bound rt e # os) = rt # bound_routes os"
| "bound_routes (Rejected d # os) = bound_routes os"
| "bound_routes (Uncaught # os) = bound_routes os"

fun bound_entries :: "outcome list \<Rightarrow> api_module list" where
  "bound_entries [] = []"
| "bound_entries (Bound rt e # os) = e # bound_entries os"
| "bound_entries (Rejected d # os) = bound_entries os"
| "bound_entries (Uncaught # os) = bound_entries os"

fun diagnostics :: "outcome list \<Rightarrow> diag list" where
  "diagnostics [] = []"
| "diagnostics (Bound rt e # os) = diagnostics os"
| "diagnostics (Rejected d # os) = d # diagnostics os"
| "diagnostics (Uncaught # os) = diagnostics os"

text \<open>
  Example modules: a well-formed one, one without an entry point, one without a path,
  one with a method in mixed case and a path with two \<^verbatim>\<open>?\<close>.
\<close>

definition ping :: jsval where
  "ping = JObj [(''meta'', JObj [(''name'', JStr ''Ping''), (''path'', JStr ''/ping''),
                                 (''method'', JStr ''GET''), (''category'', JStr ''util'')]),
                (''onStart'', JFun ''f'')]"

definition no_entry :: jsval where
  "no_entry = JObj [(''meta'', JObj [(''name'', JStr ''Broken''), (''path'', JStr ''/broken'')])]"

definition no_path :: jsval where
  "no_path = JObj [(''meta'', JObj [(''name'', JStr ''Lost'')]), (''onStart'', JFun ''f'')]"

definition echo :: jsval where
  "echo = JObj [(''meta'', JObj [(''name'', JStr ''Echo''), (''path'', JStr ''/echo?text=?x''),
                                 (''method'', JStr ''Post''), (''category'', JStr ''util'')]),
                (''onStart'', JFun ''f'')]"

definition example_tree :: "fs_entry list" where
  "example_tree =
     [File ''ping.js'' (Exports ping),
      Dir ''sub'' [File ''bad.js'' (Exports no_entry),
                   File ''boom.js'' (Throws (JObj [(''message'', JStr ''boom'')]))],
      File ''notes.md'' (Throws JNull)]"

text \<open>
  The property key of a module's category, the modules of a key in bind order, and a
  module list none of whose keys names a member inherited from \<^verbatim>\<open>Object.prototype\<close>.
\<close>

definition category_key :: "api_module \<Rightarrow> string" where
  "category_key m = to_string (category m)"

definition members :: "string \<Rightarrow> api_module list \<Rightarrow> api_module list" where
  "members k ms = filter (\<lambda>m. category_key m = k) ms"

definition catalog_safe :: "api_module list \<Rightarrow> bool" where
  "catalog_safe ms = list_all (\<lambda>m. category_key m \<notin> set object_prototype_keys) ms"

text \<open>
  The shape of \<^verbatim>\<open>categories\<close> during the loop: no key twice, every category filed
  under the key of its name, no inherited key. \<open>grown\<close> is the category of a module
  after the module was added.
\<close>

definition well_keyed :: "(string \<times> catalog_category) list \<Rightarrow> bool" where
  "well_keyed cats =
     (distinct (map fst cats)
      \<and> list_all (\<lambda>p. to_string (category_name (snd p)) = fst p
                      \<and> fst p \<notin> set object_prototype_keys) cats)"

definition grown :: "api_module \<Rightarrow> (string \<times> catalog_category) list \<Rightarrow> catalog_category" where
  "grown m cats =
     (case map_of cats (category_key m) of
        Some c \<Rightarrow> c\<lparr>items := items c @ [item_of m]\<rparr>
      | None \<Rightarrow> \<lparr>category_name = category m, items = [item_of m]\<rparr>)"

text \<open>Example modules and entries: a path with a query suffix, an entry of a category.\<close>

definition search :: jsval where
  "search = JObj [(''meta'', JObj [(''name'', JStr ''Search''), (''path'', JStr ''/search?q=''),
                                   (''category'', JStr ''util'')]),
                  (''onStart'', JFun ''f'')]"

definition entry_in :: "string \<Rightarrow> jsval \<Rightarrow> api_module" where
  "entry_in n c =
     \<lparr>name = JStr n, description = JUndefined, category = c, path = ''/api/'' @ n,
      author = JUndefined, http_method = JStr ''get''\<rparr>"

section \<open>Properties of the response envelope\<close>

lemma map_of_set_prop: "map_of (set_prop kv ps) = (map_of ps)(fst kv \<mapsto> snd kv)"
  by (simp add: set_prop_def update_conv')

lemma map_of_fold_set_prop:
  "map_of (fold set_prop ps base) = map_of base ++ map_of (rev ps)"
  by (induction ps arbitrary: base) (simp_all add: map_of_set_prop)

lemma distinct_set_prop: "distinct (map fst ps) \<Longrightarrow> distinct (map fst (set_prop kv ps))"
  by (simp add: set_prop_def distinct_update)

lemma distinct_fold_set_prop:
  "distinct (map fst base) \<Longrightarrow> distinct (map fst (fold set_prop ps base))"
  by (induction ps arbitrary: base) (simp_all add: distinct_set_prop)

lemma keys_fold_set_prop:
  "fst ` set (fold set_prop ps base) = fst ` set base \<union> fst ` set ps"
  by (induction ps arbitrary: base) (auto simp: set_prop_def dom_update)

lemma map_of_rev_distinct: "distinct (map fst ps) \<Longrightarrow> map_of (rev ps) = map_of ps"
  by (metis distinct_rev rev_map map_of_inject_set set_rev)

lemma get_prop_missing: "k \<notin> fst ` set ps \<Longrightarrow> get_prop (JObj ps) k = JUndefined"
proof -
  assume "k \<notin> fst ` set ps"
  then have "map_of (rev ps) k = None"
    by (simp add: map_of_eq_None_iff)
  then show ?thesis
    by (simp add: get_prop_def)
qed

lemma get_prop_fold_set_prop:
  assumes "distinct (map fst base)"
  shows "get_prop (JObj (fold set_prop ps base)) k =
     (if k \<in> fst ` set ps then get_prop (JObj ps) k else get_prop (JObj base) k)"
proof -
  have d: "distinct (map fst (fold set_prop ps base))"
    using assms by (rule distinct_fold_set_prop)
  have "map_of (rev (fold set_prop ps base)) = map_of base ++ map_of (rev ps)"
    by (simp add: map_of_rev_distinct [OF d] map_of_fold_set_prop)
  moreover have "map_of (rev base) = map_of base"
    using assms by (rule map_of_rev_distinct)
  moreover have "(map_of (rev ps) k = None) = (k \<notin> fst ` set ps)"
    by (simp add: map_of_eq_None_iff)
  ultimately show ?thesis
    by (auto simp: get_prop_def map_add_def split: option.splits)
qed

lemma res_json_scalar:
  "res_json settings JUndefined = JUndefined"
  "res_json settings JNull = JNull"
  "res_json settings (JBool b) = JBool b"
  "res_json settings (JNum n) = JNum n"
  "res_json settings (JStr s) = JStr s"
  "res_json settings (JFun f) = JFun f"
  by (simp_all add: res_json_def)

text \<open>
  Claim C1: a payload that is not an object (a bare array, a scalar, null) is sent
  unmodified. Scalars, null and undefined do pass (\<open>res_json_scalar\<close>), but an array
  is truthy and its \<^verbatim>\<open>typeof\<close> is \<^verbatim>\<open>'object'\<close>, so the test of line 29 takes it for an
  object: the array \<^verbatim>\<open>[1, 2]\<close> leaves as an object holding \<^verbatim>\<open>status\<close>, \<^verbatim>\<open>creator\<close>
  and the elements under the keys \<^verbatim>\<open>0\<close> and \<^verbatim>\<open>1\<close>.
\<close>

theorem envelope_array_wrapped:
  "res_json [] (JArr [JNum 1, JNum 2]) =
     JObj [(''status'', JNum 200), (''creator'', JStr ''Created Using Rynn UI''),
           (''0'', JNum 1), (''1'', JNum 2)]"
  by (simp add: res_json_def set_prop_def creator_def get_prop_def show_nat.simps upt_rec
      digit_def)

text \<open>
  Claim C2: for an object payload \<open>P\<close> the envelope sends the merge of the defaults
  \<^verbatim>\<open>{status: 200, creator: configured creator}\<close> with \<open>P\<close>: the result is an object whose
  keys are those of the defaults and of \<open>P\<close>, every key of \<open>P\<close> reads as in \<open>P\<close>,
  every other key as in the defaults. In particular a \<^verbatim>\<open>status\<close> of \<open>P\<close> is the
  status sent. The default creator is the configured one: the \<^verbatim>\<open>creator\<close> of the
  \<^verbatim>\<open>apiSettings\<close> of the settings when that is truthy, the fixed text otherwise.
\<close>

theorem envelope_object_merge:
  "(\<exists>qs. res_json settings (JObj ps) = JObj qs \<and> distinct (map fst qs))
   \<and> fst ` set (own_props (res_json settings (JObj ps)))
       = {''status'', ''creator''} \<union> fst ` set ps
   \<and> (\<forall>k. get_prop (res_json settings (JObj ps)) k =
          (if k \<in> fst ` set ps then get_prop (JObj ps) k
           else get_prop (JObj [(''status'', JNum 200), (''creator'', creator settings)]) k))
   \<and> (\<forall>a c. get_prop (JObj settings) ''apiSettings'' = a \<and> \<not> is_nullish a
          \<and> get_prop a ''creator'' = c \<and> truthy c \<longrightarrow> creator settings = c)
   \<and> (is_nullish (get_prop (JObj settings) ''apiSettings'')
        \<or> \<not> truthy (get_prop (get_prop (JObj settings) ''apiSettings'') ''creator'')
        \<longrightarrow> creator settings = JStr ''Created Using Rynn UI'')"
proof -
  define st where "st = (if truthy (get_prop (JObj ps) ''status'')
    then get_prop (JObj ps) ''status'' else JNum 200)"
  define base where "base = [(''status'', st), (''creator'', creator settings)]"
  define qs where "qs = fold set_prop ps base"
  have db: "distinct (map fst base)"
    by (simp add: base_def)
  have r: "res_json settings (JObj ps) = JObj qs"
    by (simp add: res_json_def qs_def base_def st_def)
  have d: "distinct (map fst qs)"
    unfolding qs_def using db by (rule distinct_fold_set_prop)
  have k: "fst ` set qs = {''status'', ''creator''} \<union> fst ` set ps"
    by (simp add: qs_def keys_fold_set_prop base_def)
  have g: "get_prop (JObj qs) k =
            (if k \<in> fst ` set ps then get_prop (JObj ps) k
             else get_prop (JObj [(''status'', JNum 200), (''creator'', creator settings)]) k)" for k
  proof (cases "k \<in> fst ` set ps")
    case True
    then show ?thesis
      by (simp add: qs_def get_prop_fold_set_prop [OF db])
  next
    case False
    have "''status'' \<notin> fst ` set ps \<Longrightarrow> st = JNum 200"
      by (simp add: st_def get_prop_missing)
    then have "get_prop (JObj base) k =
        get_prop (JObj [(''status'', JNum 200), (''creator'', creator settings)]) k"
      using False by (auto simp: base_def get_prop_def)
    with False show ?thesis
      by (simp add: qs_def get_prop_fold_set_prop [OF db])
  qed
  have c1: "creator settings = c"
    if "get_prop (JObj settings) ''apiSettings'' = a" "\<not> is_nullish a"
      "get_prop a ''creator'' = c" "truthy c" for a c
    using that by (simp add: creator_def is_nullish_def)
  have c2: "creator settings = JStr ''Created Using Rynn UI''"
    if "is_nullish (get_prop (JObj settings) ''apiSettings'')
        \<or> \<not> truthy (get_prop (get_prop (JObj settings) ''apiSettings'') ''creator'')"
    using that by (auto simp: creator_def is_nullish_def Let_def)
  from r d k g c1 c2 show ?thesis by simp
qed

text \<open>
  A payload with its own status 201, under settings that configure the creator
  \<^verbatim>\<open>Rynn\<close>: the status sent is 201, the creator sent is the configured one.
\<close>

theorem envelope_object_merge_witness:
  "get_prop (JObj [(''apiSettings'', JObj [(''creator'', JStr ''Rynn'')])]) ''apiSettings''
     = JObj [(''creator'', JStr ''Rynn'')]
   \<and> \<not> is_nullish (JObj [(''creator'', JStr ''Rynn'')])
   \<and> get_prop (JObj [(''creator'', JStr ''Rynn'')]) ''creator'' = JStr ''Rynn''
   \<and> truthy (JStr ''Rynn'')
   \<and> get_prop (res_json [(''apiSettings'', JObj [(''creator'', JStr ''Rynn'')])]
         (JObj [(''status'', JNum 201), (''x'', JNum 1)])) ''status'' = JNum 201
   \<and> get_prop (res_json [(''apiSettings'', JObj [(''creator'', JStr ''Rynn'')])]
         (JObj [(''status'', JNum 201), (''x'', JNum 1)])) ''creator'' = JStr ''Rynn''"
proof -
  let ?st = "[(''apiSettings'', JObj [(''creator'', JStr ''Rynn'')])]"
  let ?ps = "[(''status'', JNum 201), (''x'', JNum 1)]"
  have a: "get_prop (JObj ?st) ''apiSettings'' = JObj [(''creator'', JStr ''Rynn'')]"
    by (simp add: get_prop_def)
  have n: "\<not> is_nullish (JObj [(''creator'', JStr ''Rynn'')])"
    by (simp add: is_nullish_def)
  have c: "get_prop (JObj [(''creator'', JStr ''Rynn'')]) ''creator'' = JStr ''Rynn''"
    by (simp add: get_prop_def)
  have t: "truthy (JStr ''Rynn'')"
    by simp
  have m: "\<forall>k. get_prop (res_json ?st (JObj ?ps)) k =
          (if k \<in> fst ` set ?ps then get_prop (JObj ?ps) k
           else get_prop (JObj [(''status'', JNum 200), (''creator'', creator ?st)]) k)"
    and cr: "\<forall>a c. get_prop (JObj ?st) ''apiSettings'' = a \<and> \<not> is_nullish a
          \<and> get_prop a ''creator'' = c \<and> truthy c \<longrightarrow> creator ?st = c"
    using envelope_object_merge [of ?st ?ps] by blast+
  have "creator ?st = JStr ''Rynn''"
    using cr a n c t by blast
  then show ?thesis
    using a n c t m by (simp add: get_prop_def)
qed

section \<open>Properties of the module loader\<close>

lemma split_on_not_Nil: "split_on c s \<noteq> []"
  by (induction s) (auto split: list.splits)

lemma piece_split_on_0: "piece (split_on c s) 0 = before_first c s"
proof (induction s)
  case Nil
  show ?case by (simp add: piece_def before_first_def)
next
  case (Cons x xs)
  then show ?case
    using split_on_not_Nil [of c xs]
    by (auto simp: piece_def before_first_def split: list.splits)
qed

lemma capital_letters: "map char_of [65..<91::nat] = ''ABCDEFGHIJKLMNOPQRSTUVWXYZ''"
  by (simp add: upt_rec char_of_eq_iff)

lemma small_letters: "map (\<lambda>n. char_of (n + 32)) [65..<91::nat] = ''abcdefghijklmnopqrstuvwxyz''"
  by (simp add: upt_rec char_of_eq_iff)

lemma map_of_table:
  "inj_on f (set xs) \<Longrightarrow> k \<in> set xs \<Longrightarrow> map_of (zip (map f xs) (map g xs)) (f k) = Some (g k)"
  by (induction xs) (auto simp: inj_on_def)


lemma lower_char_eq:
  "lower_char c = (if 65 \<le> (of_char c :: nat) \<and> (of_char c :: nat) \<le> 90
     then char_of ((of_char c :: nat) + 32) else c)"
proof -
  define n :: nat where "n = of_char c"
  have c: "c = char_of n"
    by (simp add: n_def)
  have inj: "inj_on (char_of :: nat \<Rightarrow> char) (set [65..<91])"
    by (rule inj_on_subset [OF inj_on_char_of_nat]) auto
  have tab: "lower_char c =
      (case map_of (zip (map char_of [65..<91::nat]) (map (\<lambda>n. char_of (n + 32)) [65..<91::nat])) c of
         Some l \<Rightarrow> l | None \<Rightarrow> c)"
    by (simp only: lower_char_def capital_letters small_letters)
  show ?thesis
  proof (cases "65 \<le> n \<and> n \<le> 90")
    case True
    then have "n \<in> set [65..<91]"
      by (simp only: set_upt atLeastLessThan_iff) arith
    then have "map_of (zip (map char_of [65..<91::nat]) (map (\<lambda>n. char_of (n + 32)) [65..<91::nat]))
        (char_of n) = Some (char_of (n + 32))"
      by (rule map_of_table [OF inj])
    then show ?thesis
      using True by (simp add: tab c [symmetric] n_def [symmetric])
  next
    case False
    have "c \<notin> char_of ` set [65..<91::nat]"
    proof
      assume "c \<in> char_of ` set [65..<91::nat]"
      then obtain m :: nat where m: "c = char_of m" "65 \<le> m" "m < 91"
        by auto
      then have "n = m"
        by (simp add: n_def)
      with m False show False
        by simp
    qed
    moreover have "map fst (zip (map char_of [65..<91::nat])
        (map (\<lambda>n. char_of (n + 32)) [65..<91::nat])) = map char_of [65..<91::nat]"
      by (rule map_fst_zip) (simp only: length_map)
    then have "fst ` set (zip (map char_of [65..<91::nat])
        (map (\<lambda>n. char_of (n + 32)) [65..<91::nat])) = char_of ` set [65..<91::nat]"
      by (simp only: set_map [symmetric])
    ultimately have "map_of (zip (map char_of [65..<91::nat])
        (map (\<lambda>n. char_of (n + 32)) [65..<91::nat])) c = None"
      by (simp only: map_of_eq_None_iff not_False_eq_True)
    then have "lower_char c = c"
      by (simp only: tab option.case)
    then show ?thesis
      using False by (auto simp: n_def)
  qed
qed

lemma toLowerCase_lowercase: "toLowerCase s = lowercase s"
  by (simp add: toLowerCase_def lowercase_def lower_char_eq)

lemma piece_split_on_1:
  "c \<in> set p \<Longrightarrow>
     piece (split_on c p) 1 = before_first c (drop 1 (dropWhile (\<lambda>x. x \<noteq> c) p))"
proof (induction p)
  case Nil
  then show ?case by simp
next
  case (Cons x xs)
  show ?case
  proof (cases "x = c")
    case True
    have "piece ([] # split_on c xs) 1 = piece (split_on c xs) 0"
      by (simp add: piece_def)
    then show ?thesis
      using True by (simp add: piece_split_on_0)
  next
    case False
    then have "c \<in> set xs"
      using Cons.prems by simp
    then have ih: "piece (split_on c xs) 1
        = before_first c (drop 1 (dropWhile (\<lambda>x. x \<noteq> c) xs))"
      by (rule Cons.IH)
    obtain y ys where sp: "split_on c xs = y # ys"
      using split_on_not_Nil [of c xs] by (cases "split_on c xs") auto
    have "piece ((x # y) # ys) 1 = piece (y # ys) 1"
      by (simp add: piece_def)
    then show ?thesis
      using False ih by (simp add: sp)
  qed
qed


lemma unit_invalid_iff: "unit_invalid u = invalid_format u"
  by (cases "get_prop u ''onStart''")
     (simp_all add: unit_invalid_def invalid_format_def absent_def invocable_def)

lemma bind_module_not_Skipped: "bind_module app fp meta \<noteq> Rejected (Skipped q)"
  by (simp add: bind_module_def Let_def split: jsval.splits option.splits)

lemma bind_module_not_Uncaught: "bind_module app fp meta \<noteq> Uncaught"
  by (simp add: bind_module_def Let_def split: jsval.splits option.splits)

lemma query_suffix_piece:
  "CHR ''?'' \<in> set p \<Longrightarrow> CHR ''?'' # piece (split_on CHR ''?'' p) (Suc 0) = query_suffix p"
  "CHR ''?'' \<notin> set p \<Longrightarrow> query_suffix p = []"
  using piece_split_on_1 [of "CHR ''?''" p] by (simp_all add: query_suffix_def)

text \<open>What the binder does, in the notions of the specification.\<close>

lemma bind_module_resolved:
  assumes "get_prop meta ''path'' = JStr p"
    and "resolved_method (get_prop meta ''method'') = Some m"
  shows "bind_module app fp meta =
     (case app m (resolved_path p) of
        Some e \<Rightarrow> Rejected (Error_loading fp e)
      | None \<Rightarrow>
          Bound \<lparr>route_method = m, route_path = resolved_path p, route_file = fp\<rparr>
            \<lparr>name = get_prop meta ''name'', description = get_prop meta ''description'',
             category = get_prop meta ''category'', path = catalog_path p,
             author = get_prop meta ''author'',
             http_method = (if truthy (get_prop meta ''method'') then get_prop meta ''method''
                            else JStr ''get'')\<rparr>)"
proof (cases "truthy (get_prop meta ''method'')")
  case True
  then obtain ms where ms: "get_prop meta ''method'' = JStr ms" "m = lowercase ms"
    using assms(2)
    by (auto simp: resolved_method_def absent_def split: jsval.splits)
  show ?thesis
    using True assms(1) ms
    by (simp add: bind_module_def Let_def piece_split_on_0 toLowerCase_lowercase
        resolved_path_def catalog_path_def query_suffix_piece split: option.splits)
next
  case False
  then have m: "m = ''get''"
    using assms(2) by (simp add: resolved_method_def absent_def)
  have "toLowerCase ''get'' = ''get''"
    by (simp add: toLowerCase_def lower_char_def)
  then show ?thesis
    using False assms(1) m
    by (simp add: bind_module_def Let_def piece_split_on_0
        resolved_path_def catalog_path_def query_suffix_piece split: option.splits)
qed

lemma bind_module_no_path:
  assumes "\<forall>p. get_prop meta ''path'' \<noteq> JStr p"
  shows "bind_module app fp meta = Rejected (Error_loading fp TypeError_message)"
  using assms by (cases "get_prop meta ''path''") (simp_all add: bind_module_def)

lemma bind_module_no_method:
  assumes "get_prop meta ''path'' = JStr p"
    and "resolved_method (get_prop meta ''method'') = None"
  shows "bind_module app fp meta = Rejected (Error_loading fp TypeError_message)"
proof -
  have t: "truthy (get_prop meta ''method'')"
    using assms(2) by (auto simp: resolved_method_def absent_def split: if_splits)
  then show ?thesis
    using assms
    by (cases "get_prop meta ''method''")
       (simp_all add: bind_module_def Let_def resolved_method_def absent_def)
qed

lemma try_load_bindable:
  assumes "bindable app r"
  shows "\<exists>rt e. try_load app fp r = Bound rt e
     \<and> route_path rt = resolved_path (template r) \<and> route_file rt = fp
     \<and> resolved_method (get_prop (get_prop (case r of Exports u \<Rightarrow> u | Throws v \<Rightarrow> v)
           ''meta'') ''method'') = Some (route_method rt)
     \<and> path e = catalog_path (template r)"
proof -
  from assms obtain u where u: "r = Exports u" "\<not> is_nullish u" "\<not> unit_invalid u"
    by (auto simp: bindable_def split: load_result.splits)
  from assms u obtain p where p: "get_prop (get_prop u ''meta'') ''path'' = JStr p"
    by (auto simp: bindable_def split: jsval.splits)
  from assms u p obtain m where
    m: "resolved_method (get_prop (get_prop u ''meta'') ''method'') = Some m"
      "app m (resolved_path p) = None"
    by (auto simp: bindable_def split: option.splits)
  have "try_load app fp r = bind_module app fp (get_prop u ''meta'')"
    using u by (simp add: try_load_def unit_invalid_iff)
  then show ?thesis
    using u(1) p m by (simp add: bind_module_resolved [OF p m(1)] template_def)
qed

lemma try_load_Uncaught_iff: "(try_load app fp r = Uncaught) = throws_nullish r"
  by (cases r)
     (simp_all add: try_load_def throws_nullish_def bind_module_not_Uncaught)

lemma bind_module_diag_path:
  "bind_module app fp meta = Rejected d \<Longrightarrow> diag_path d = fp"
  by (auto simp: bind_module_def Let_def diag_path_def split: jsval.splits option.splits)

lemma try_load_diag_path: "try_load app fp r = Rejected d \<Longrightarrow> diag_path d = fp"
  by (auto simp: try_load_def diag_path_def dest: bind_module_diag_path
      split: load_result.splits if_splits)

lemma try_load_not_bindable:
  assumes "\<not> bindable app r" and "\<not> throws_nullish r"
  shows "\<exists>d. try_load app fp r = Rejected d \<and> diag_path d = fp"
proof -
  have "try_load app fp r \<noteq> Uncaught"
    using assms(2) by (simp add: try_load_Uncaught_iff)
  moreover have "try_load app fp r \<noteq> Bound rt e" for rt e
  proof
    assume b: "try_load app fp r = Bound rt e"
    then obtain u where u: "r = Exports u" "\<not> is_nullish u" "\<not> unit_invalid u"
      "bind_module app fp (get_prop u ''meta'') = Bound rt e"
      by (auto simp: try_load_def unit_invalid_iff split: load_result.splits if_splits)
    obtain p where p: "get_prop (get_prop u ''meta'') ''path'' = JStr p"
      using u(4) bind_module_no_path [of "get_prop u ''meta''" app fp] by auto
    obtain m where m: "resolved_method (get_prop (get_prop u ''meta'') ''method'') = Some m"
      using u(4) bind_module_no_method [OF p, of app fp]
      by (cases "resolved_method (get_prop (get_prop u ''meta'') ''method'')") auto
    have "app m (resolved_path p) = None"
      using u(4) by (simp add: bind_module_resolved [OF p m] split: option.splits)
    then have "bindable app r"
      using u p m by (simp add: bindable_def)
    with assms(1) show False ..
  qed
  ultimately obtain d where "try_load app fp r = Rejected d"
    by (cases "try_load app fp r") auto
  then show ?thesis
    by (auto dest: try_load_diag_path)
qed

lemma load_file_Rejected:
  "try_load app fp r = Rejected d \<Longrightarrow> load_file app fp r s = s\<lparr>console := console s @ [d]\<rparr>"
  by (simp add: load_file_def)

lemma load_file_Bound:
  "try_load app fp r = Bound rt e \<Longrightarrow>
   load_file app fp r s =
     s\<lparr>routes := routes s @ [rt], apiModules := apiModules s @ [e],
       totalRoutes := totalRoutes s + 1\<rparr>"
  by (simp add: load_file_def)

lemma load_files_Nil: "load_files app [] s = s"
  by (simp add: load_files_def)

lemma load_files_Cons:
  "load_files app (c # cs) s = load_files app cs (load_file app (fst c) (snd c) s)"
  by (simp add: load_files_def)

lemma load_files_append:
  "load_files app (cs @ ds) s = load_files app ds (load_files app cs s)"
  by (simp add: load_files_def)

lemma catchable_append: "catchable (cs @ ds) = (catchable cs \<and> catchable ds)"
  by (simp add: catchable_def)

text \<open>A scan that returns has loaded its candidates in turn.\<close>

lemma loadModules_Inr:
  "loadModules app dir es s = Inr s' \<Longrightarrow> s' = load_files app (candidates dir es) s"
  "load_entry app dir e s = Inr s' \<Longrightarrow> s' = load_files app (candidates_entry dir e) s"
  by (induction app dir es s and app dir e s arbitrary: s' and s'
      rule: loadModules_load_entry.induct)
     (auto simp: load_files_Nil load_files_Cons load_files_append split: sum.splits if_splits)

text \<open>
  The scan returns exactly when the tree can be read throughout and no candidate throws
  null or undefined.
\<close>

lemma loadModules_returns:
  "readable es \<Longrightarrow> catchable (candidates dir es) \<Longrightarrow>
     loadModules app dir es s = Inr (load_files app (candidates dir es) s)"
  "readable_entry e \<Longrightarrow> catchable (candidates_entry dir e) \<Longrightarrow>
     load_entry app dir e s = Inr (load_files app (candidates_entry dir e) s)"
  by (induction app dir es s and app dir e s rule: loadModules_load_entry.induct)
     (auto simp: load_files_Nil load_files_Cons load_files_append catchable_append
        catchable_def try_load_Uncaught_iff split: if_splits)

lemma loadModules_aborts:
  "\<not> (readable es \<and> catchable (candidates dir es)) \<Longrightarrow> \<exists>p. loadModules app dir es s = Inl p"
  "\<not> (readable_entry e \<and> catchable (candidates_entry dir e)) \<Longrightarrow>
     \<exists>p. load_entry app dir e s = Inl p"
  by (induction app dir es s and app dir e s rule: loadModules_load_entry.induct)
     (auto simp: catchable_append catchable_def try_load_Uncaught_iff
        split: sum.splits if_splits)

lemma routes_load_files:
  "routes (load_files app cs s) = routes s @ bound_routes (outcomes app cs)"
  by (induction cs arbitrary: s)
     (auto simp: load_files_Nil load_files_Cons outcomes_def load_file_def split: outcome.splits)

lemma apiModules_load_files:
  "apiModules (load_files app cs s) = apiModules s @ bound_entries (outcomes app cs)"
  by (induction cs arbitrary: s)
     (auto simp: load_files_Nil load_files_Cons outcomes_def load_file_def split: outcome.splits)

lemma console_load_files:
  "console (load_files app cs s) = console s @ diagnostics (outcomes app cs)"
  by (induction cs arbitrary: s)
     (auto simp: load_files_Nil load_files_Cons outcomes_def load_file_def split: outcome.splits)

lemma totalRoutes_load_files:
  "totalRoutes (load_files app cs s) = totalRoutes s + length (bound_entries (outcomes app cs))"
  by (induction cs arbitrary: s)
     (auto simp: load_files_Nil load_files_Cons outcomes_def load_file_def split: outcome.splits)

text \<open>Which files are bound and which are logged, told from the files.\<close>

lemma outcomes_Cons: "outcomes app (c # cs) = try_load app (fst c) (snd c) # outcomes app cs"
  by (simp add: outcomes_def)

lemma bound_routes_bindable:
  "map route_file (bound_routes (outcomes app cs)) = map fst (filter (\<lambda>c. bindable app (snd c)) cs)
   \<and> map route_path (bound_routes (outcomes app cs))
       = map (\<lambda>c. resolved_path (template (snd c))) (filter (\<lambda>c. bindable app (snd c)) cs)
   \<and> map path (bound_entries (outcomes app cs))
       = map (\<lambda>c. catalog_path (template (snd c))) (filter (\<lambda>c. bindable app (snd c)) cs)"
proof (induction cs)
  case Nil
  show ?case by (simp add: outcomes_def)
next
  case (Cons c cs)
  show ?case
  proof (cases "bindable app (snd c)")
    case True
    then obtain rt e where "try_load app (fst c) (snd c) = Bound rt e"
      "route_path rt = resolved_path (template (snd c))" "route_file rt = fst c"
      "path e = catalog_path (template (snd c))"
      using try_load_bindable [of app "snd c" "fst c"] by blast
    then show ?thesis
      using True Cons.IH by (simp add: outcomes_Cons)
  next
    case False
    have nb: "try_load app (fst c) (snd c) \<noteq> Bound rt e" for rt e
    proof (cases "throws_nullish (snd c)")
      case True
      then show ?thesis
        using try_load_Uncaught_iff [of app "fst c" "snd c"] by simp
    next
      case nn: False
      then show ?thesis
        using try_load_not_bindable [OF False nn, of "fst c"] by auto
    qed
    show ?thesis
    proof (cases "try_load app (fst c) (snd c)")
      case (Bound rt e)
      with nb show ?thesis by blast
    next
      case (Rejected d)
      then show ?thesis
        using False Cons.IH by (simp add: outcomes_Cons)
    next
      case Uncaught
      then show ?thesis
        using False Cons.IH by (simp add: outcomes_Cons)
    qed
  qed
qed

lemma diagnostics_not_bindable:
  assumes "catchable cs"
  shows "map diag_path (diagnostics (outcomes app cs))
     = map fst (filter (\<lambda>c. \<not> bindable app (snd c)) cs)"
  using assms
proof (induction cs)
  case Nil
  show ?case by (simp add: outcomes_def)
next
  case (Cons c cs)
  then have ih: "map diag_path (diagnostics (outcomes app cs))
     = map fst (filter (\<lambda>c. \<not> bindable app (snd c)) cs)"
    and nn: "\<not> throws_nullish (snd c)"
    by (simp_all add: catchable_def)
  show ?case
  proof (cases "bindable app (snd c)")
    case True
    then obtain rt e where "try_load app (fst c) (snd c) = Bound rt e"
      using try_load_bindable [of app "snd c" "fst c"] by blast
    then show ?thesis
      using True ih by (simp add: outcomes_Cons)
  next
    case False
    then obtain d where "try_load app (fst c) (snd c) = Rejected d" "diag_path d = fst c"
      using try_load_not_bindable [OF False nn, of "fst c"] by blast
    then show ?thesis
      using False ih by (simp add: outcomes_Cons)
  qed
qed

lemma length_filter_compl:
  "length (filter P xs) = length xs - length (filter (\<lambda>x. \<not> P x) xs)"
  using sum_length_filter_compl [of P xs] by simp

lemma mset_bound_routes:
  "mset (bound_routes os) =
     (\<Sum>out\<in>#mset os. case out of Bound rt e \<Rightarrow> {#rt#} | Rejected d \<Rightarrow> {#} | Uncaught \<Rightarrow> {#})"
  by (induction os rule: bound_routes.induct) simp_all

lemma mset_bound_entries:
  "mset (bound_entries os) =
     (\<Sum>out\<in>#mset os. case out of Bound rt e \<Rightarrow> {#e#} | Rejected d \<Rightarrow> {#} | Uncaught \<Rightarrow> {#})"
  by (induction os rule: bound_routes.induct) simp_all

lemma mset_diagnostics:
  "mset (diagnostics os) =
     (\<Sum>out\<in>#mset os. case out of Bound rt e \<Rightarrow> {#} | Rejected d \<Rightarrow> {#d#} | Uncaught \<Rightarrow> {#})"
  by (induction os rule: bound_routes.induct) simp_all

lemma mset_outcomes:
  assumes "mset cs = mset ds"
  shows "mset (outcomes app cs) = mset (outcomes app ds)"
proof -
  have "image_mset (\<lambda>c. try_load app (fst c) (snd c)) (mset cs)
      = image_mset (\<lambda>c. try_load app (fst c) (snd c)) (mset ds)"
    using assms by simp
  then show ?thesis
    by (simp add: outcomes_def)
qed

lemma catchable_mset:
  assumes "mset cs = mset ds" and "catchable ds"
  shows "catchable cs"
proof -
  have "set cs = set ds"
    using assms(1) by (rule mset_eq_setD)
  then show ?thesis
    using assms(2) by (simp add: catchable_def list_all_iff)
qed

lemma set_diagnostics: "set (diagnostics os) = {d. Rejected d \<in> set os}"
  by (induction os rule: bound_routes.induct) auto

lemma try_load_Throws:
  "\<not> is_nullish v \<Longrightarrow>
     try_load app p (Throws v) = Rejected (Error_loading p (Message (to_string (get_prop v ''message''))))"
  by (simp add: try_load_def)

lemma thrown_logged:
  assumes "(p, Throws v) \<in> set cs" and "\<not> is_nullish v"
  shows "Error_loading p (Message (to_string (get_prop v ''message'')))
     \<in> set (diagnostics (outcomes app cs))"
proof -
  have "try_load app (fst (p, Throws v)) (snd (p, Throws v)) \<in> set (outcomes app cs)"
    unfolding outcomes_def set_map using assms(1) by (rule imageI)
  then show ?thesis
    using assms(2) by (simp add: set_diagnostics try_load_Throws)
qed

text \<open>The example files, evaluated.\<close>

lemma try_load_ping:
  "try_load accept_all fp (Exports ping) =
     Bound \<lparr>route_method = ''get'', route_path = ''/api/ping'', route_file = fp\<rparr>
       \<lparr>name = JStr ''Ping'', description = JUndefined, category = JStr ''util'',
        path = ''/api/ping'', author = JUndefined, http_method = JStr ''GET''\<rparr>"
  by (simp add: try_load_def ping_def is_nullish_def invalid_format_def get_prop_def
      bind_module_def piece_def accept_all_def toLowerCase_def lower_char_def Let_def)

lemma try_load_no_entry: "try_load app fp (Exports no_entry) = Rejected (Skipped fp)"
  by (simp add: try_load_def no_entry_def is_nullish_def invalid_format_def get_prop_def)

lemma try_load_boom:
  "try_load app fp (Throws (JObj [(''message'', JStr ''boom'')]))
     = Rejected (Error_loading fp (Message ''boom''))"
  by (simp add: try_load_def is_nullish_def get_prop_def)

lemma candidates_example_tree:
  "candidates ''api'' example_tree =
     [(''api/ping.js'', Exports ping), (''api/sub/bad.js'', Exports no_entry),
      (''api/sub/boom.js'', Throws (JObj [(''message'', JStr ''boom'')]))]"
  by (simp add: example_tree_def extname_def path_join_def)

lemma readable_example_tree: "readable example_tree"
  by (simp add: example_tree_def)

lemma catchable_example_tree: "catchable (candidates ''api'' example_tree)"
  by (simp add: candidates_example_tree catchable_def throws_nullish_def is_nullish_def)

text \<open>
  Claim C4, as stated: with \<open>k\<close> of the \<open>N\<close> candidates invalid or throwing while they
  load, \<open>N - k\<close> routes are bound and \<open>k\<close> diagnostics logged, and every exception of a
  file is caught and logged. A valid module without a path, whose file loads, still
  gets no route and one diagnostic; and a file that throws \<^verbatim>\<open>null\<close> makes the
  \<^verbatim>\<open>catch\<close> itself throw: the scan is left and the valid file after it is never
  loaded.
\<close>

theorem valid_unbound_and_null_throw:
  "\<not> unit_invalid no_path
   \<and> loadModules accept_all ''api'' [File ''lost.js'' (Exports no_path)] init
       = Inr (init\<lparr>console := [Error_loading ''api/lost.js'' TypeError_message]\<rparr>)
   \<and> loadModules accept_all ''api''
         [File ''null.js'' (Throws JNull), File ''ping.js'' (Exports ping)] init
       = Inl ''api/null.js''"
  by (simp add: unit_invalid_def no_path_def absent_def invocable_def get_prop_def
      extname_def path_join_def load_file_def try_load_def is_nullish_def invalid_format_def
      bind_module_def init_def)

text \<open>
  Claim C4, amended: on a tree that can be read throughout and none of whose files
  throws null or undefined, the scan returns; with \<open>N\<close> candidates of which \<open>k\<close> cannot be
  bound (the file throws, the exports are null or undefined, the unit is invalid, the
  path is not a string, the method is neither absent nor a string, or Express refuses
  the registration), exactly the \<open>N - k\<close> others are bound, in order, and exactly the \<open>k\<close>
  are logged, each with one diagnostic naming its path. A file that throws is logged
  with its path and the text of its message. What a file contributes does not depend on
  the others or on the order: a tree with the same candidates in any other order binds
  the same routes, records the same entries and logs the same diagnostics.
\<close>

theorem discovery_isolation:
  assumes "readable es" and "catchable (candidates dir es)"
  shows "\<exists>s'. loadModules app dir es s = Inr s'
    \<and> routes s' = routes s @ bound_routes (outcomes app (candidates dir es))
    \<and> console s' = console s @ diagnostics (outcomes app (candidates dir es))
    \<and> length (routes s') = length (routes s)
        + (length (candidates dir es)
           - length (filter (\<lambda>c. \<not> bindable app (snd c)) (candidates dir es)))
    \<and> length (console s') = length (console s)
        + length (filter (\<lambda>c. \<not> bindable app (snd c)) (candidates dir es))
    \<and> map route_file (bound_routes (outcomes app (candidates dir es)))
        = map fst (filter (\<lambda>c. bindable app (snd c)) (candidates dir es))
    \<and> map diag_path (diagnostics (outcomes app (candidates dir es)))
        = map fst (filter (\<lambda>c. \<not> bindable app (snd c)) (candidates dir es))
    \<and> (\<forall>p v. (p, Throws v) \<in> set (candidates dir es) \<longrightarrow>
          \<not> bindable app (Throws v)
          \<and> Error_loading p (Message (to_string (get_prop v ''message''))) \<in> set (console s'))
    \<and> (\<forall>dir' es'. readable es' \<and> mset (candidates dir' es') = mset (candidates dir es) \<longrightarrow>
          (\<exists>s''. loadModules app dir' es' s = Inr s''
             \<and> mset (routes s'') = mset (routes s')
             \<and> mset (apiModules s'') = mset (apiModules s')
             \<and> mset (console s'') = mset (console s')))"
proof -
  let ?cs = "candidates dir es"
  let ?s' = "load_files app ?cs s"
  have run: "loadModules app dir es s = Inr ?s'"
    using assms by (rule loadModules_returns)
  have r: "routes ?s' = routes s @ bound_routes (outcomes app ?cs)"
    by (rule routes_load_files)
  have c: "console ?s' = console s @ diagnostics (outcomes app ?cs)"
    by (rule console_load_files)
  have f: "map route_file (bound_routes (outcomes app ?cs))
      = map fst (filter (\<lambda>c. bindable app (snd c)) ?cs)"
    using bound_routes_bindable [of app ?cs] by blast
  have d: "map diag_path (diagnostics (outcomes app ?cs))
      = map fst (filter (\<lambda>c. \<not> bindable app (snd c)) ?cs)"
    using assms(2) by (rule diagnostics_not_bindable)
  have "length (bound_routes (outcomes app ?cs))
      = length (filter (\<lambda>c. bindable app (snd c)) ?cs)"
    using arg_cong [OF f, of length] by simp
  then have n: "length (routes ?s') = length (routes s)
      + (length ?cs - length (filter (\<lambda>c. \<not> bindable app (snd c)) ?cs))"
    using length_filter_compl [of "\<lambda>c. bindable app (snd c)" ?cs] by (simp add: r)
  have "length (diagnostics (outcomes app ?cs))
      = length (filter (\<lambda>c. \<not> bindable app (snd c)) ?cs)"
    using arg_cong [OF d, of length] by simp
  then have k: "length (console ?s') = length (console s)
      + length (filter (\<lambda>c. \<not> bindable app (snd c)) ?cs)"
    by (simp add: c)
  have t: "\<not> bindable app (Throws v)
      \<and> Error_loading p (Message (to_string (get_prop v ''message''))) \<in> set (console ?s')"
    if m: "(p, Throws v) \<in> set ?cs" for p v
  proof -
    have "\<not> throws_nullish (snd (p, Throws v))"
      using assms(2) m unfolding catchable_def list_all_iff by blast
    then have "\<not> is_nullish v"
      by (simp add: throws_nullish_def)
    then show ?thesis
      using m by (simp add: c thrown_logged bindable_def)
  qed
  have o: "\<exists>s''. loadModules app dir' es' s = Inr s''
             \<and> mset (routes s'') = mset (routes ?s')
             \<and> mset (apiModules s'') = mset (apiModules ?s')
             \<and> mset (console s'') = mset (console ?s')"
    if re: "readable es'" and ms: "mset (candidates dir' es') = mset ?cs" for dir' es'
  proof -
    have "mset (outcomes app (candidates dir' es')) = mset (outcomes app ?cs)"
      using ms by (rule mset_outcomes)
    moreover have "catchable (candidates dir' es')"
      using ms assms(2) by (rule catchable_mset)
    ultimately show ?thesis
      using loadModules_returns(1) [OF re, of dir' app s]
      by (simp add: routes_load_files apiModules_load_files console_load_files
          mset_bound_routes mset_bound_entries mset_diagnostics)
  qed
  from run r c n k f d t o show ?thesis
    by blast
qed

text \<open>
  The example tree: three candidates, one invalid and one throwing an error of message
  \<^verbatim>\<open>boom\<close>; one route is bound and two diagnostics are logged.
\<close>

theorem discovery_isolation_witness:
  "readable example_tree \<and> catchable (candidates ''api'' example_tree)
   \<and> (\<exists>s'. loadModules accept_all ''api'' example_tree init = Inr s'
         \<and> map route_path (routes s') = [''/api/ping'']
         \<and> console s' = [Skipped ''api/sub/bad.js'',
                           Error_loading ''api/sub/boom.js'' (Message ''boom'')])"
proof -
  obtain s' where s: "loadModules accept_all ''api'' example_tree init = Inr s'"
    "routes s' = routes init @ bound_routes (outcomes accept_all (candidates ''api'' example_tree))"
    "console s' = console init @ diagnostics (outcomes accept_all (candidates ''api'' example_tree))"
    using discovery_isolation [OF readable_example_tree catchable_example_tree, of accept_all init]
    by blast
  have "map route_path (routes s') = [''/api/ping'']"
    by (simp add: s(2) candidates_example_tree outcomes_def try_load_ping try_load_no_entry
        try_load_boom init_def)
  moreover have "console s' = [Skipped ''api/sub/bad.js'',
      Error_loading ''api/sub/boom.js'' (Message ''boom'')]"
    by (simp add: s(3) candidates_example_tree outcomes_def try_load_ping try_load_no_entry
        try_load_boom init_def)
  ultimately show ?thesis
    using s(1) readable_example_tree catchable_example_tree by simp
qed

text \<open>
  Claim C3, as stated: a unit is rejected as invalid, and skipped with the warning,
  exactly when its metadata is absent, or its entry point is absent, or its entry point
  is not invocable. A file that exports \<^verbatim>\<open>null\<close> has neither metadata nor entry point,
  but the test of line 56 throws on it: the \<^verbatim>\<open>catch\<close> logs the error of loading, not
  the warning.
\<close>

theorem null_exports_not_skipped:
  "unit_invalid JNull
   \<and> try_load accept_all ''api/null.js'' (Exports JNull)
       = Rejected (Error_loading ''api/null.js'' TypeError_message)"
  by (simp add: unit_invalid_def absent_def get_prop_def try_load_def is_nullish_def)

text \<open>
  Claim C3, amended: a unit that was loaded gets the warning of an invalid module
  exactly when its exports are neither null nor undefined and its metadata is absent, or
  its entry point is absent, or its entry point is not invocable. Every invalid unit is
  rejected with one diagnostic naming its path, the warning unless the exports are null
  or undefined, then the error of loading; nothing else changes, so it adds no route and
  no catalog entry, and the scan goes on with the next entry (and returns, when the rest
  can be read and throws neither null nor undefined).
\<close>

theorem invalid_unit_skipped:
  "(try_load app fp (Exports u) = Rejected (Skipped fp)) = (unit_invalid u \<and> \<not> is_nullish u)
   \<and> (unit_invalid u \<longrightarrow>
        (\<exists>d. try_load app fp (Exports u) = Rejected d \<and> diag_path d = fp
           \<and> (\<not> is_nullish u \<longrightarrow> d = Skipped fp)
           \<and> (is_nullish u \<longrightarrow> d = Error_loading fp TypeError_message)
           \<and> load_file app fp (Exports u) s = s\<lparr>console := console s @ [d]\<rparr>))
   \<and> (unit_invalid u \<and> extname file = ''.js'' \<longrightarrow>
        (\<exists>d. diag_path d = path_join dir file
           \<and> loadModules app dir (File file (Exports u) # es) s
               = loadModules app dir es (s\<lparr>console := console s @ [d]\<rparr>)
           \<and> (readable es \<and> catchable (candidates dir es) \<longrightarrow>
                (\<exists>s'. loadModules app dir (File file (Exports u) # es) s = Inr s'))))"
proof -
  have a: "(try_load app fp (Exports u) = Rejected (Skipped fp))
      = (unit_invalid u \<and> \<not> is_nullish u)"
    by (simp add: try_load_def unit_invalid_iff bind_module_not_Skipped)
  have b: "\<exists>d. try_load app fp (Exports u) = Rejected d \<and> diag_path d = fp
           \<and> (\<not> is_nullish u \<longrightarrow> d = Skipped fp)
           \<and> (is_nullish u \<longrightarrow> d = Error_loading fp TypeError_message)
           \<and> load_file app fp (Exports u) s = s\<lparr>console := console s @ [d]\<rparr>"
    if "unit_invalid u" for fp
    using that
    by (cases "is_nullish u")
       (simp_all add: try_load_def unit_invalid_iff load_file_def diag_path_def)
  have c: "\<exists>d. diag_path d = path_join dir file
           \<and> loadModules app dir (File file (Exports u) # es) s
               = loadModules app dir es (s\<lparr>console := console s @ [d]\<rparr>)
           \<and> (readable es \<and> catchable (candidates dir es) \<longrightarrow>
                (\<exists>s'. loadModules app dir (File file (Exports u) # es) s = Inr s'))"
    if inv: "unit_invalid u" and js: "extname file = ''.js''"
  proof -
    obtain d where d: "try_load app (path_join dir file) (Exports u) = Rejected d"
      "diag_path d = path_join dir file"
      "load_file app (path_join dir file) (Exports u) s = s\<lparr>console := console s @ [d]\<rparr>"
      using b [OF inv, of "path_join dir file"] by blast
    have "loadModules app dir (File file (Exports u) # es) s
        = loadModules app dir es (s\<lparr>console := console s @ [d]\<rparr>)"
      using js d(1,3) by simp
    then show ?thesis
      using d(2) by (auto simp: loadModules_returns)
  qed
  from a b c show ?thesis
    by blast
qed

text \<open>A module without an entry point, alone in the folder.\<close>

theorem invalid_unit_skipped_witness:
  "unit_invalid no_entry \<and> \<not> is_nullish no_entry \<and> extname ''bad.js'' = ''.js''
   \<and> try_load accept_all ''api/bad.js'' (Exports no_entry) = Rejected (Skipped ''api/bad.js'')
   \<and> load_file accept_all ''api/bad.js'' (Exports no_entry) init
       = init\<lparr>console := [Skipped ''api/bad.js'']\<rparr>"
proof -
  have n: "\<not> is_nullish no_entry"
    by (simp add: is_nullish_def no_entry_def)
  have i: "unit_invalid no_entry"
    by (simp add: unit_invalid_def no_entry_def get_prop_def absent_def)
  have e: "extname ''bad.js'' = ''.js''"
    by (simp add: extname_def)
  show ?thesis
    using n i e
      invalid_unit_skipped [of accept_all "''api/bad.js''" no_entry init "''bad.js''" "''api''" "[]"]
    by (auto simp: init_def)
qed

text \<open>
  Claim C5: for a validated module whose path is a string and whose method is absent or
  an ASCII string, the registration is made at \<^verbatim>\<open>"/api"\<close> followed by the part of the
  path before the first \<^verbatim>\<open>?\<close>, under the lowercase of the method, \<^verbatim>\<open>get\<close> when the
  method is absent: when the call returns, the route bound has this method and this
  path; when it throws, the module is rejected with that error.
\<close>

theorem route_binder_derivation:
  assumes "\<not> is_nullish u" and "\<not> unit_invalid u"
    and "get_prop (get_prop u ''meta'') ''path'' = JStr p"
    and "get_prop (get_prop u ''meta'') ''method'' = mv"
    and "absent mv \<or> (mv = JStr ms \<and> is_ascii ms)"
  shows "(app (if absent mv then ''get'' else lowercase ms)
              (''/api'' @ before_first CHR ''?'' p) = None \<longrightarrow>
            (\<exists>e. try_load app fp (Exports u) =
               Bound \<lparr>route_method = (if absent mv then ''get'' else lowercase ms),
                      route_path = ''/api'' @ before_first CHR ''?'' p,
                      route_file = fp\<rparr> e))
       \<and> (\<forall>err. app (if absent mv then ''get'' else lowercase ms)
              (''/api'' @ before_first CHR ''?'' p) = Some err \<longrightarrow>
            try_load app fp (Exports u) = Rejected (Error_loading fp err))"
proof -
  have t: "try_load app fp (Exports u) = bind_module app fp (get_prop u ''meta'')"
    using assms(1,2) by (simp add: try_load_def unit_invalid_iff)
  have m: "resolved_method (get_prop (get_prop u ''meta'') ''method'')
      = Some (if absent mv then ''get'' else lowercase ms)"
    using assms(4,5) by (auto simp: resolved_method_def)
  show ?thesis
    unfolding t bind_module_resolved [OF assms(3) m]
    by (simp add: resolved_path_def)
qed

text \<open>
  The module \<open>echo\<close>, of method \<^verbatim>\<open>Post\<close> and path \<^verbatim>\<open>/echo?text=?x\<close>: it is registered
  under \<^verbatim>\<open>post\<close> at \<^verbatim>\<open>/api/echo\<close>.
\<close>

theorem route_binder_derivation_witness:
  "\<not> is_nullish echo \<and> \<not> unit_invalid echo
   \<and> get_prop (get_prop echo ''meta'') ''path'' = JStr ''/echo?text=?x''
   \<and> get_prop (get_prop echo ''meta'') ''method'' = JStr ''Post''
   \<and> is_ascii ''Post''
   \<and> accept_all ''post'' ''/api/echo'' = None
   \<and> (\<exists>e. try_load accept_all ''api/echo.js'' (Exports echo) =
         Bound \<lparr>route_method = ''post'', route_path = ''/api/echo'',
                route_file = ''api/echo.js''\<rparr> e)"
proof -
  have n: "\<not> is_nullish echo"
    by (simp add: is_nullish_def echo_def)
  have i: "\<not> unit_invalid echo"
    by (simp add: unit_invalid_def echo_def get_prop_def absent_def invocable_def)
  have p: "get_prop (get_prop echo ''meta'') ''path'' = JStr ''/echo?text=?x''"
    by (simp add: echo_def get_prop_def)
  have m: "get_prop (get_prop echo ''meta'') ''method'' = JStr ''Post''"
    by (simp add: echo_def get_prop_def)
  have s: "is_ascii ''Post''"
    by (simp add: is_ascii_def)
  have a: "absent (JStr ''Post'') \<or> (JStr ''Post'' = JStr ''Post'' \<and> is_ascii ''Post'')"
    using s by simp
  have l: "lowercase ''Post'' = ''post''"
    by (simp add: lowercase_def char_of_eq_iff)
  show ?thesis
    using n i p m s route_binder_derivation [OF n i p m a, of accept_all "''api/echo.js''"]
    by (simp add: accept_all_def absent_def l before_first_def)
qed

text \<open>
  Claim C6, as stated: a bind attempt whose key is already registered is reported and
  rejected. It is not: two files with the method \<^verbatim>\<open>GET\<close> and the path \<^verbatim>\<open>/ping\<close> are
  both registered and both recorded, and nothing is logged.
\<close>

theorem duplicate_route_not_rejected:
  "loadModules accept_all ''api'' [File ''a.js'' (Exports ping), File ''b.js'' (Exports ping)] init
     = Inr \<lparr>routes =
              [\<lparr>route_method = ''get'', route_path = ''/api/ping'', route_file = ''api/a.js''\<rparr>,
               \<lparr>route_method = ''get'', route_path = ''/api/ping'', route_file = ''api/b.js''\<rparr>],
            apiModules =
              [\<lparr>name = JStr ''Ping'', description = JUndefined, category = JStr ''util'',
                path = ''/api/ping'', author = JUndefined, http_method = JStr ''GET''\<rparr>,
               \<lparr>name = JStr ''Ping'', description = JUndefined, category = JStr ''util'',
                path = ''/api/ping'', author = JUndefined, http_method = JStr ''GET''\<rparr>],
            totalRoutes = 2, console = []\<rparr>"
  by (simp add: extname_def path_join_def load_file_def try_load_ping init_def)

text \<open>
  Claim C6, amended: the loader does not look at the routes already registered. A
  module that passes validation and whose registration call returns is bound even when
  its key is already registered: its route is added after the existing ones, which
  stay, its entry is recorded and counted, and nothing is logged; the key is then
  bound more than once.
\<close>

theorem duplicate_route_appended:
  assumes "try_load app fp r = Bound rt e"
    and "route_key rt \<in> route_key ` set (routes s)"
  shows "load_file app fp r s =
      s\<lparr>routes := routes s @ [rt], apiModules := apiModules s @ [e],
        totalRoutes := totalRoutes s + 1\<rparr>
    \<and> console (load_file app fp r s) = console s
    \<and> length (filter (\<lambda>x. route_key x = route_key rt) (routes (load_file app fp r s)))
        = length (filter (\<lambda>x. route_key x = route_key rt) (routes s)) + 1
    \<and> \<not> distinct (map route_key (routes (load_file app fp r s)))"
proof -
  have l: "load_file app fp r s =
      s\<lparr>routes := routes s @ [rt], apiModules := apiModules s @ [e],
        totalRoutes := totalRoutes s + 1\<rparr>"
    using assms(1) by (rule load_file_Bound)
  have "\<not> distinct (map route_key (routes s @ [rt]))"
    using assms(2) by simp
  with l show ?thesis
    by simp
qed

text \<open>The module \<open>ping\<close> loaded from two files.\<close>

theorem duplicate_route_appended_witness:
  "try_load accept_all ''api/b.js'' (Exports ping) =
     Bound \<lparr>route_method = ''get'', route_path = ''/api/ping'', route_file = ''api/b.js''\<rparr>
       \<lparr>name = JStr ''Ping'', description = JUndefined, category = JStr ''util'',
        path = ''/api/ping'', author = JUndefined, http_method = JStr ''GET''\<rparr>
   \<and> route_key \<lparr>route_method = ''get'', route_path = ''/api/ping'', route_file = ''api/b.js''\<rparr>
       \<in> route_key ` set (routes (load_file accept_all ''api/a.js'' (Exports ping) init))
   \<and> map route_file
        (routes (load_file accept_all ''api/b.js'' (Exports ping)
                  (load_file accept_all ''api/a.js'' (Exports ping) init)))
       = [''api/a.js'', ''api/b.js'']
   \<and> console (load_file accept_all ''api/b.js'' (Exports ping)
                  (load_file accept_all ''api/a.js'' (Exports ping) init)) = []"
proof -
  have k: "route_key \<lparr>route_method = ''get'', route_path = ''/api/ping'', route_file = ''api/b.js''\<rparr>
       \<in> route_key ` set (routes (load_file accept_all ''api/a.js'' (Exports ping) init))"
    by (simp add: load_file_def try_load_ping init_def route_key_def)
  show ?thesis
    using k duplicate_route_appended [OF try_load_ping k]
    by (simp add: try_load_ping) (simp add: load_file_def try_load_ping init_def)
qed

text \<open>
  Claim C10: the route count equals the number of recorded entries. Loading a file
  keeps the equality; a successful bind appends exactly one entry and adds one to the
  counter, a rejection changes neither; so the equality holds after every file of the
  scan and in the state the scan returns.
\<close>

theorem route_count_invariant:
  "(totalRoutes s = length (apiModules s) \<longrightarrow>
      totalRoutes (load_file app fp r s) = length (apiModules (load_file app fp r s)))
   \<and> (\<forall>rt e. try_load app fp r = Bound rt e \<longrightarrow>
        apiModules (load_file app fp r s) = apiModules s @ [e]
        \<and> totalRoutes (load_file app fp r s) = totalRoutes s + 1)
   \<and> (\<forall>d. try_load app fp r = Rejected d \<longrightarrow>
        apiModules (load_file app fp r s) = apiModules s
        \<and> totalRoutes (load_file app fp r s) = totalRoutes s)
   \<and> (\<forall>n. totalRoutes (load_files app (take n (candidates dir es)) init)
          = length (apiModules (load_files app (take n (candidates dir es)) init)))
   \<and> (\<forall>s'. loadModules app dir es init = Inr s' \<longrightarrow>
          totalRoutes s' = length (apiModules s'))"
proof -
  have a: "totalRoutes s = length (apiModules s) \<longrightarrow>
      totalRoutes (load_file app fp r s) = length (apiModules (load_file app fp r s))"
    by (simp add: load_file_def split: outcome.splits)
  have b: "\<forall>rt e. try_load app fp r = Bound rt e \<longrightarrow>
        apiModules (load_file app fp r s) = apiModules s @ [e]
        \<and> totalRoutes (load_file app fp r s) = totalRoutes s + 1"
    by (simp add: load_file_def)
  have c: "\<forall>d. try_load app fp r = Rejected d \<longrightarrow>
        apiModules (load_file app fp r s) = apiModules s
        \<and> totalRoutes (load_file app fp r s) = totalRoutes s"
    by (simp add: load_file_def)
  have d: "totalRoutes (load_files app cs init) = length (apiModules (load_files app cs init))"
    for cs
    by (simp add: totalRoutes_load_files apiModules_load_files init_def)
  have e: "totalRoutes s' = length (apiModules s')"
    if "loadModules app dir es init = Inr s'" for s'
  proof -
    have "s' = load_files app (candidates dir es) init"
      using that by (rule loadModules_Inr)
    then show ?thesis
      by (simp add: d)
  qed
  from a b c d e show ?thesis
    by blast
qed

text \<open>The example tree: one route counted, one entry recorded.\<close>

theorem route_count_invariant_witness:
  "loadModules accept_all ''api'' example_tree init
     = Inr (load_files accept_all (candidates ''api'' example_tree) init)
   \<and> totalRoutes (load_files accept_all (candidates ''api'' example_tree) init) = 1
   \<and> length (apiModules (load_files accept_all (candidates ''api'' example_tree) init)) = 1"
proof -
  have l: "loadModules accept_all ''api'' example_tree init
     = Inr (load_files accept_all (candidates ''api'' example_tree) init)"
    using readable_example_tree catchable_example_tree by (rule loadModules_returns)
  have "length (apiModules (load_files accept_all (candidates ''api'' example_tree) init)) = 1"
    by (simp add: apiModules_load_files candidates_example_tree outcomes_def try_load_ping
        try_load_no_entry try_load_boom init_def)
  then show ?thesis
    using l route_count_invariant [of init accept_all "''x''" "Throws JNull" "''api''" example_tree]
    by simp
qed

section \<open>Properties of the catalog\<close>

lemma add_module_throws:
  assumes "map_of cats (category_key m) = None"
    and "category_key m \<in> set object_prototype_keys"
  shows "add_module m cats = Inl TypeError"
  using assms by (simp add: add_module_def category_key_def)

lemma map_of_snoc_fresh: "map_of ps k = None \<Longrightarrow> map_of (ps @ [(k, v)]) k = Some v"
  by (simp add: map_add_def)

lemma update_snoc_same:
  "k \<notin> fst ` set ps \<Longrightarrow> AList.update k v (ps @ [(k, w)]) = ps @ [(k, v)]"
  by (induction ps) auto

lemma set_update_subset: "set (AList.update k v ps) \<subseteq> insert (k, v) (set ps)"
  by (induction ps) auto

lemma map_of_snoc_upd:
  "map_of ps k = None \<Longrightarrow> map_of (ps @ [(k, v)]) = (map_of ps)(k \<mapsto> v)"
  by (rule ext) (auto simp: map_add_def split: option.splits)

lemma add_module_new:
  assumes "map_of cats (category_key m) = None"
    and "category_key m \<notin> set object_prototype_keys"
  shows "add_module m cats = Inr (cats @ [(category_key m, grown m cats)])"
proof -
  let ?k = "category_key m"
  let ?c = "\<lparr>category_name = category m, items = []\<rparr>"
  have k: "?k \<notin> fst ` set cats"
    using assms(1) by (simp add: map_of_eq_None_iff)
  have "AList.update ?k (?c\<lparr>items := items ?c @ [item_of m]\<rparr>) (cats @ [(?k, ?c)])
      = cats @ [(?k, grown m cats)]"
    using k assms(1) by (simp add: update_snoc_same grown_def)
  moreover have "map_of (cats @ [(?k, ?c)]) ?k = Some ?c"
    using assms(1) by (rule map_of_snoc_fresh)
  ultimately show ?thesis
    unfolding add_module_def Let_def using assms
    by (simp del: map_of_append add: category_key_def)
qed

lemma add_module_old:
  assumes "map_of cats (category_key m) = Some c"
  shows "add_module m cats = Inr (AList.update (category_key m) (grown m cats) cats)"
  using assms by (simp add: add_module_def category_key_def grown_def)

lemma add_module_returns:
  assumes "category_key m \<notin> set object_prototype_keys"
  shows "\<exists>cats'. add_module m cats = Inr cats'"
  using assms add_module_new [of cats m] add_module_old [of cats m]
  by (cases "map_of cats (category_key m)") auto

lemma grown_key:
  assumes "well_keyed cats"
  shows "to_string (category_name (grown m cats)) = category_key m"
proof (cases "map_of cats (category_key m)")
  case None
  then show ?thesis
    by (simp add: grown_def category_key_def)
next
  case (Some c)
  then have "(category_key m, c) \<in> set cats"
    by (rule map_of_SomeD)
  then have "to_string (category_name c) = category_key m"
    using assms by (auto simp: well_keyed_def list_all_iff)
  with Some show ?thesis
    by (simp add: grown_def)
qed

lemma add_module_step:
  assumes "well_keyed cats" and "category_key m \<notin> set object_prototype_keys"
  shows "\<exists>cats'. add_module m cats = Inr cats' \<and> well_keyed cats'
           \<and> map_of cats' = (map_of cats)(category_key m \<mapsto> grown m cats)"
proof (cases "map_of cats (category_key m)")
  case None
  let ?new = "cats @ [(category_key m, grown m cats)]"
  have "category_key m \<notin> fst ` set cats"
    using None by (simp add: map_of_eq_None_iff)
  then have "well_keyed ?new"
    using assms by (simp add: well_keyed_def grown_key)
  moreover have "map_of ?new = (map_of cats)(category_key m \<mapsto> grown m cats)"
    using None by (rule map_of_snoc_upd)
  ultimately show ?thesis
    using add_module_new [OF None assms(2)] by simp
next
  case (Some c)
  let ?new = "AList.update (category_key m) (grown m cats) cats"
  have "distinct (map fst ?new)"
    using assms(1) by (simp add: well_keyed_def distinct_update)
  moreover have "list_all (\<lambda>p. to_string (category_name (snd p)) = fst p
      \<and> fst p \<notin> set object_prototype_keys) ?new"
    using assms set_update_subset [of "category_key m" "grown m cats" cats]
    by (auto simp: well_keyed_def list_all_iff grown_key)
  ultimately have "well_keyed ?new"
    by (simp add: well_keyed_def)
  then show ?thesis
    using add_module_old [OF Some] by (simp add: update_conv')
qed

lemma members_Nil: "members k [] = []"
  by (simp add: members_def)

lemma members_Cons:
  "members k (m # ms) = (if category_key m = k then m # members k ms else members k ms)"
  by (simp add: members_def)

lemma add_modules_lookup:
  assumes "well_keyed cats" and "catalog_safe ms"
  shows "\<exists>cats'. add_modules ms cats = Inr cats' \<and> well_keyed cats'
     \<and> (\<forall>k. map_of cats' k =
          (case map_of cats k of
             Some c \<Rightarrow> Some (c\<lparr>items := items c @ map item_of (members k ms)\<rparr>)
           | None \<Rightarrow>
               (case members k ms of
                  [] \<Rightarrow> None
                | m # _ \<Rightarrow> Some \<lparr>category_name = category m,
                                  items = map item_of (members k ms)\<rparr>)))"
  using assms
proof (induction ms arbitrary: cats)
  case Nil
  then show ?case
    by (simp add: members_Nil split: option.splits)
next
  case (Cons m ms)
  from Cons.prems have safe: "category_key m \<notin> set object_prototype_keys" "catalog_safe ms"
    by (simp_all add: catalog_safe_def)
  obtain cats1 where s1: "add_module m cats = Inr cats1" "well_keyed cats1"
    "map_of cats1 = (map_of cats)(category_key m \<mapsto> grown m cats)"
    using add_module_step [OF Cons.prems(1) safe(1)] by blast
  obtain cats' where s2: "add_modules ms cats1 = Inr cats'" "well_keyed cats'"
    "\<And>k. map_of cats' k =
          (case map_of cats1 k of
             Some c \<Rightarrow> Some (c\<lparr>items := items c @ map item_of (members k ms)\<rparr>)
           | None \<Rightarrow>
               (case members k ms of
                  [] \<Rightarrow> None
                | m # _ \<Rightarrow> Some \<lparr>category_name = category m,
                                  items = map item_of (members k ms)\<rparr>))"
    using Cons.IH [OF s1(2) safe(2)] by blast
  have "map_of cats' k =
          (case map_of cats k of
             Some c \<Rightarrow> Some (c\<lparr>items := items c @ map item_of (members k (m # ms))\<rparr>)
           | None \<Rightarrow>
               (case members k (m # ms) of
                  [] \<Rightarrow> None
                | m' # _ \<Rightarrow> Some \<lparr>category_name = category m',
                                  items = map item_of (members k (m # ms))\<rparr>))" for k
  proof (cases "category_key m = k")
    case True
    then have "members k (m # ms) = m # members k ms"
      by (simp add: members_Cons)
    then show ?thesis
      using True by (simp add: s2(3) s1(3) grown_def split: option.splits)
  next
    case False
    then have e: "members k (m # ms) = members k ms"
      by (simp add: members_Cons)
    show ?thesis
      unfolding e using False by (simp add: s2(3) s1(3))
  qed
  with s1(1) s2(1,2) show ?case
    by simp
qed


lemma add_modules_unsafe:
  assumes "well_keyed cats" and "\<not> catalog_safe ms"
  shows "add_modules ms cats = Inl TypeError"
  using assms
proof (induction ms arbitrary: cats)
  case Nil
  then show ?case by (simp add: catalog_safe_def)
next
  case (Cons m ms)
  show ?case
  proof (cases "category_key m \<in> set object_prototype_keys")
    case True
    then have "category_key m \<notin> fst ` set cats"
      using Cons.prems(1) by (auto simp: well_keyed_def list_all_iff)
    then have "map_of cats (category_key m) = None"
      by (simp add: map_of_eq_None_iff)
    then show ?thesis
      using True by (simp add: add_module_throws)
  next
    case False
    then have "\<not> catalog_safe ms"
      using Cons.prems(2) by (simp add: catalog_safe_def)
    moreover obtain cats1 where "add_module m cats = Inr cats1" "well_keyed cats1"
      using add_module_step [OF Cons.prems(1) False] by blast
    ultimately show ?thesis
      using Cons.IH [of cats1] by simp
  qed
qed

lemma well_keyed_Nil: "well_keyed []"
  by (simp add: well_keyed_def)

lemma build_catalog_unsafe: "\<not> catalog_safe ms \<Longrightarrow> build_catalog ms = Inl TypeError"
  by (simp add: build_catalog_def add_modules_unsafe [OF well_keyed_Nil])

lemma build_catalog_safe:
  assumes "catalog_safe ms"
  shows "\<exists>cats. add_modules ms [] = Inr cats \<and> well_keyed cats
     \<and> build_catalog ms = Inr (object_values cats)
     \<and> (\<forall>k. map_of cats k =
          (case members k ms of
             [] \<Rightarrow> None
           | m # _ \<Rightarrow> Some \<lparr>category_name = category m,
                             items = map item_of (members k ms)\<rparr>))"
  using add_modules_lookup [OF well_keyed_Nil assms]
  by (auto simp: build_catalog_def)

lemma mset_object_values: "mset (object_values ps) = image_mset snd (mset ps)"
proof -
  have "mset (object_values ps)
      = image_mset snd (filter_mset (\<lambda>p. is_array_index (fst p)) (mset ps))
        + image_mset snd (filter_mset (\<lambda>p. \<not> is_array_index (fst p)) (mset ps))"
    by (simp add: object_values_def)
  also have "\<dots> = image_mset snd (filter_mset (\<lambda>p. is_array_index (fst p)) (mset ps)
          + filter_mset (\<lambda>p. \<not> is_array_index (fst p)) (mset ps))"
    by (simp only: image_mset_union)
  also have "\<dots> = image_mset snd (mset ps)"
    by simp
  finally show ?thesis .
qed

lemma set_object_values: "set (object_values ps) = snd ` set ps"
proof -
  have "set_mset (mset (object_values ps)) = set_mset (image_mset snd (mset ps))"
    by (simp only: mset_object_values)
  then show ?thesis
    by simp
qed

lemma filter_key_distinct:
  "distinct (map fst ps) \<Longrightarrow> map_of ps k = Some v \<Longrightarrow> filter (\<lambda>p. fst p = k) ps = [(k, v)]"
proof (induction ps)
  case Nil
  then show ?case by simp
next
  case (Cons p ps)
  show ?case
  proof (cases "fst p = k")
    case True
    then have "k \<notin> fst ` set ps"
      using Cons.prems(1) by auto
    then have "filter (\<lambda>p. fst p = k) ps = []"
      by (auto simp: filter_empty_conv)
    then show ?thesis
      using True Cons.prems(2) by (cases p) auto
  next
    case False
    then show ?thesis
      using Cons by (cases p) auto
  qed
qed

lemma one_category_per_key:
  assumes "well_keyed cats" and "map_of cats k = Some c"
  shows "filter (\<lambda>c. to_string (category_name c) = k) (object_values cats) = [c]"
proof -
  have "filter (\<lambda>p. to_string (category_name (snd p)) = k) cats
      = filter (\<lambda>p. fst p = k) cats"
    using assms(1) by (intro filter_cong) (auto simp: well_keyed_def list_all_iff)
  also have "\<dots> = [(k, c)]"
    using assms by (simp add: well_keyed_def filter_key_distinct)
  finally have f: "filter (\<lambda>p. to_string (category_name (snd p)) = k) cats = [(k, c)]" .
  have "mset (filter (\<lambda>c. to_string (category_name c) = k) (object_values cats))
      = filter_mset (\<lambda>c. to_string (category_name c) = k) (image_mset snd (mset cats))"
    by (simp add: mset_object_values)
  also have "\<dots> = image_mset snd
      (mset (filter (\<lambda>p. to_string (category_name (snd p)) = k) cats))"
    by (simp add: filter_mset_image_mset)
  also have "\<dots> = {#c#}"
    by (simp add: f)
  finally show ?thesis
    by (simp only: mset_single_iff)
qed


lemma item_path_item_of: "item_path (item_of m) = path m"
  by (simp add: item_of_def)

lemma set_catalog_paths:
  assumes "catalog_safe ms"
  shows "\<exists>cs. build_catalog ms = Inr cs \<and> set (catalog_paths cs) = path ` set ms"
proof -
  obtain cats where c: "well_keyed cats" "build_catalog ms = Inr (object_values cats)"
    and look: "\<And>k. map_of cats k =
          (case members k ms of
             [] \<Rightarrow> None
           | m # _ \<Rightarrow> Some \<lparr>category_name = category m,
                             items = map item_of (members k ms)\<rparr>)"
    using build_catalog_safe [OF assms] by blast
  have d: "distinct (map fst cats)"
    using c(1) by (simp add: well_keyed_def)
  have sub: "x \<in> path ` set ms" if "x \<in> set (catalog_paths (object_values cats))" for x
  proof -
    from that obtain k c where kc: "(k, c) \<in> set cats" and x: "x \<in> item_path ` set (items c)"
      by (auto simp: catalog_paths_def set_object_values)
    have "map_of cats k = Some c"
      using d kc by (rule map_of_is_SomeI)
    then have "items c = map item_of (members k ms)"
      using look [of k] by (auto split: list.splits)
    then show ?thesis
      using x by (auto simp: members_def item_path_item_of)
  qed
  have sup: "path m \<in> set (catalog_paths (object_values cats))" if "m \<in> set ms" for m
  proof -
    let ?k = "category_key m"
    have mem: "m \<in> set (members ?k ms)"
      using that by (simp add: members_def)
    then obtain c where s: "map_of cats ?k = Some c" "items c = map item_of (members ?k ms)"
      using look [of ?k] by (cases "members ?k ms") auto
    have "(?k, c) \<in> set cats"
      using s(1) by (rule map_of_SomeD)
    moreover have "path m \<in> item_path ` set (items c)"
      using mem s(2) by (force simp: item_path_item_of)
    ultimately show ?thesis
      by (force simp: catalog_paths_def set_object_values)
  qed
  from sub sup have "set (catalog_paths (object_values cats)) = path ` set ms"
    by blast
  with c(2) show ?thesis
    by simp
qed

lemma before_first_cut:
  assumes "c \<notin> set pre"
  shows "before_first c (pre @ before_first c p @ (if c \<in> set p then c # q else []))
     = pre @ before_first c p"
proof -
  have "takeWhile (\<lambda>x. x \<noteq> c) ((pre @ takeWhile (\<lambda>x. x \<noteq> c) p) @ (if c \<in> set p then c # q else []))
     = (pre @ takeWhile (\<lambda>x. x \<noteq> c) p) @ takeWhile (\<lambda>x. x \<noteq> c) (if c \<in> set p then c # q else [])"
    using assms by (intro takeWhile_append2) (auto dest: set_takeWhileD)
  then show ?thesis
    by (simp add: before_first_def)
qed

lemma catalog_path_cut: "before_first CHR ''?'' (catalog_path p) = resolved_path p"
  using before_first_cut [of "CHR ''?''" "''/api''" p]
  by (simp add: catalog_path_def resolved_path_def query_suffix_def)

lemma catalog_path_no_query: "CHR ''?'' \<notin> set p \<Longrightarrow> catalog_path p = resolved_path p"
  by (simp add: catalog_path_def query_suffix_def)

lemma try_load_echo:
  "try_load accept_all fp (Exports echo) =
     Bound \<lparr>route_method = ''post'', route_path = ''/api/echo'', route_file = fp\<rparr>
       \<lparr>name = JStr ''Echo'', description = JUndefined, category = JStr ''util'',
        path = ''/api/echo?text='', author = JUndefined, http_method = JStr ''Post''\<rparr>"
  by (simp add: try_load_def echo_def is_nullish_def invalid_format_def get_prop_def
      bind_module_def piece_def accept_all_def toLowerCase_def lower_char_def Let_def)

lemma category_grouping:
  assumes "catalog_safe ms" and "m \<in> set ms"
  shows "\<exists>cs c. build_catalog ms = Inr cs
     \<and> filter (\<lambda>c. to_string (category_name c) = category_key m) cs = [c]
     \<and> items c = map item_of (members (category_key m) ms)
     \<and> category_name c = category (hd (members (category_key m) ms))"
proof -
  let ?k = "category_key m"
  obtain cats where c: "well_keyed cats" "build_catalog ms = Inr (object_values cats)"
    and look: "\<And>k. map_of cats k =
          (case members k ms of
             [] \<Rightarrow> None
           | m # _ \<Rightarrow> Some \<lparr>category_name = category m,
                             items = map item_of (members k ms)\<rparr>)"
    using build_catalog_safe [OF assms(1)] by blast
  have "m \<in> set (members ?k ms)"
    using assms(2) by (simp add: members_def)
  then obtain m1 rest where mr: "members ?k ms = m1 # rest"
    by (cases "members ?k ms") auto
  define c where "c = \<lparr>category_name = category m1, items = map item_of (members ?k ms)\<rparr>"
  have s: "map_of cats ?k = Some c" "items c = map item_of (members ?k ms)"
    "category_name c = category (hd (members ?k ms))"
    using look [of ?k] by (simp_all add: mr c_def)
  have "filter (\<lambda>c. to_string (category_name c) = ?k) (object_values cats) = [c]"
    using c(1) s(1) by (rule one_category_per_key)
  with c(2) s(2,3) show ?thesis
    by simp
qed

lemma undefined_key_safe: "''undefined'' \<notin> set object_prototype_keys"
  by (simp add: object_prototype_keys_def)

text \<open>
  Claim C7, as stated: the paths in the catalog are exactly the resolved paths of the
  bound routes. A module of path \<^verbatim>\<open>/search?q=\<close> is bound at \<^verbatim>\<open>/api/search\<close> and
  listed as \<^verbatim>\<open>/api/search?q=\<close>: line 74 puts the query suffix back.
\<close>

theorem catalog_path_keeps_query:
  "map route_path (routes (load_file accept_all ''api/search.js'' (Exports search) init))
     = [''/api/search'']
   \<and> build_catalog (apiModules (load_file accept_all ''api/search.js'' (Exports search) init))
     = Inr [\<lparr>category_name = JStr ''util'',
             items = [\<lparr>item_name = JStr ''Search'', item_desc = JUndefined,
                       item_path = ''/api/search?q='', item_author = JUndefined,
                       item_method = JStr ''get''\<rparr>]\<rparr>]"
  by (simp add: load_file_def try_load_def search_def is_nullish_def invalid_format_def
      get_prop_def bind_module_def piece_def accept_all_def toLowerCase_def lower_char_def
      Let_def init_def build_catalog_def add_module_def object_prototype_keys_def
      object_values_def is_array_index_def item_of_def)

text \<open>
  Claim C7, amended: after a scan, and when no recorded category has the key of a member
  inherited from \<^verbatim>\<open>Object.prototype\<close>, the catalog is built and sent through the
  envelope; its paths are exactly the paths of the recorded entries. These are, in
  order, the catalog paths of the bound modules: the resolved path, \<^verbatim>\<open>/api\<close> and the
  part of the module's path before the first \<^verbatim>\<open>?\<close>, followed by the query suffix,
  \<^verbatim>\<open>?\<close> and the text between the first \<^verbatim>\<open>?\<close> and the second, if the path has a
  \<^verbatim>\<open>?\<close>. The routes are bound at the resolved paths of the same modules. So, cut at
  the first \<^verbatim>\<open>?\<close>, the paths of the catalog are exactly the resolved paths of the bound
  routes, and the two sets are equal when no bound module's path has a \<^verbatim>\<open>?\<close>.
\<close>

theorem catalog_paths_complete:
  assumes "loadModules app dir es init = Inr s" and "catalog_safe (apiModules s)"
  shows "\<exists>cs. build_catalog (apiModules s) = Inr cs
     \<and> api_info settings (apiModules s)
         = Inr (res_json settings (JObj [(''categories'', JArr (map category_json cs))]))
     \<and> set (catalog_paths cs) = path ` set (apiModules s)
     \<and> map path (apiModules s)
         = map (\<lambda>c. catalog_path (template (snd c)))
             (filter (\<lambda>c. bindable app (snd c)) (candidates dir es))
     \<and> map route_path (routes s)
         = map (\<lambda>c. resolved_path (template (snd c)))
             (filter (\<lambda>c. bindable app (snd c)) (candidates dir es))
     \<and> map (\<lambda>e. before_first CHR ''?'' (path e)) (apiModules s) = map route_path (routes s)
     \<and> before_first CHR ''?'' ` set (catalog_paths cs) = route_path ` set (routes s)
     \<and> ((\<forall>c \<in> set (candidates dir es).
            bindable app (snd c) \<longrightarrow> CHR ''?'' \<notin> set (template (snd c)))
          \<longrightarrow> set (catalog_paths cs) = route_path ` set (routes s))"
proof -
  let ?bs = "filter (\<lambda>c. bindable app (snd c)) (candidates dir es)"
  obtain cs where cs: "build_catalog (apiModules s) = Inr cs"
    "set (catalog_paths cs) = path ` set (apiModules s)"
    using set_catalog_paths [OF assms(2)] by blast
  have "s = load_files app (candidates dir es) init"
    using assms(1) by (rule loadModules_Inr)
  then have ps: "map path (apiModules s) = map (\<lambda>c. catalog_path (template (snd c))) ?bs"
    and rs: "map route_path (routes s) = map (\<lambda>c. resolved_path (template (snd c))) ?bs"
    using bound_routes_bindable [of app "candidates dir es"]
    by (simp_all add: apiModules_load_files routes_load_files init_def)
  have "map (\<lambda>e. before_first CHR ''?'' (path e)) (apiModules s)
      = map (before_first CHR ''?'') (map path (apiModules s))"
    by simp
  also have "\<dots> = map route_path (routes s)"
    unfolding ps rs by (simp add: catalog_path_cut)
  finally have cut: "map (\<lambda>e. before_first CHR ''?'' (path e)) (apiModules s)
      = map route_path (routes s)" .
  have "before_first CHR ''?'' ` set (catalog_paths cs)
      = set (map (\<lambda>e. before_first CHR ''?'' (path e)) (apiModules s))"
    by (simp add: cs(2) image_image)
  also have "\<dots> = route_path ` set (routes s)"
    by (simp only: cut set_map)
  finally have im: "before_first CHR ''?'' ` set (catalog_paths cs) = route_path ` set (routes s)" .
  have nq: "set (catalog_paths cs) = route_path ` set (routes s)"
    if nq: "\<forall>c \<in> set (candidates dir es).
        bindable app (snd c) \<longrightarrow> CHR ''?'' \<notin> set (template (snd c))"
  proof -
    have eq: "catalog_path (template (snd c)) = resolved_path (template (snd c))"
      if "c \<in> set ?bs" for c
      using that nq by (simp add: catalog_path_no_query)
    have "map (\<lambda>c. catalog_path (template (snd c))) ?bs
        = map (\<lambda>c. resolved_path (template (snd c))) ?bs"
      by (rule map_cong [OF refl]) (rule eq)
    then have "map path (apiModules s) = map route_path (routes s)"
      by (simp only: ps rs)
    then have "set (map path (apiModules s)) = set (map route_path (routes s))"
      by (rule arg_cong)
    then show ?thesis
      by (simp add: cs(2))
  qed
  have api: "api_info settings (apiModules s)
      = Inr (res_json settings (JObj [(''categories'', JArr (map category_json cs))]))"
    by (simp add: api_info_def cs(1))
  from cs api ps rs cut im nq show ?thesis
    by blast
qed

text \<open>
  The module \<open>echo\<close> of path \<^verbatim>\<open>/echo?text=?x\<close>, alone in the folder: it is bound at
  \<^verbatim>\<open>/api/echo\<close> and listed as \<^verbatim>\<open>/api/echo?text=\<close>.
\<close>

theorem catalog_paths_complete_witness:
  "loadModules accept_all ''api'' [File ''echo.js'' (Exports echo)] init
     = Inr (load_file accept_all ''api/echo.js'' (Exports echo) init)
   \<and> catalog_safe (apiModules (load_file accept_all ''api/echo.js'' (Exports echo) init))
   \<and> catalog_path ''/echo?text=?x'' = ''/api/echo?text=''
   \<and> (\<exists>cs. build_catalog (apiModules (load_file accept_all ''api/echo.js'' (Exports echo) init))
             = Inr cs
          \<and> set (catalog_paths cs) = {''/api/echo?text=''}
          \<and> before_first CHR ''?'' ` set (catalog_paths cs) = {''/api/echo''})"
proof -
  let ?s = "load_file accept_all ''api/echo.js'' (Exports echo) init"
  have l: "loadModules accept_all ''api'' [File ''echo.js'' (Exports echo)] init = Inr ?s"
    by (simp add: extname_def path_join_def try_load_echo)
  have c: "catalog_safe (apiModules ?s)"
    by (simp add: load_file_def try_load_echo init_def catalog_safe_def category_key_def
        object_prototype_keys_def)
  have p: "catalog_path ''/echo?text=?x'' = ''/api/echo?text=''"
    by (simp add: catalog_path_def resolved_path_def query_suffix_def before_first_def)
  from catalog_paths_complete [OF l c, of "[]"] obtain cs where
    cs: "build_catalog (apiModules ?s) = Inr cs"
    "set (catalog_paths cs) = path ` set (apiModules ?s)"
    "before_first CHR ''?'' ` set (catalog_paths cs) = route_path ` set (routes ?s)"
    by (elim exE conjE)
  have a: "set (catalog_paths cs) = {''/api/echo?text=''}"
    by (simp add: cs(2) load_file_def try_load_echo init_def)
  have b: "before_first CHR ''?'' ` set (catalog_paths cs) = {''/api/echo''}"
    by (simp add: cs(3) load_file_def try_load_echo init_def)
  have "\<exists>cs. build_catalog (apiModules ?s) = Inr cs
          \<and> set (catalog_paths cs) = {''/api/echo?text=''}
          \<and> before_first CHR ''?'' ` set (catalog_paths cs) = {''/api/echo''}"
    using cs(1) a b by (intro exI [of _ cs] conjI)
  with l c p show ?thesis
    by (intro conjI)
qed

text \<open>
  Claim C8: two bound modules of the same category appear under exactly one category
  of that name, in bind order. This holds for the categories that \<open>catalog_safe\<close>
  admits (\<open>category_grouping\<close>). But \<^verbatim>\<open>categories\<close> is a plain object: for two modules
  of the category \<^verbatim>\<open>constructor\<close>, \<^verbatim>\<open>categories["constructor"]\<close> is the inherited
  \<^verbatim>\<open>Object\<close> function, no category is created, and \<^verbatim>\<open>.items.push\<close> throws.
\<close>

theorem category_named_constructor_throws:
  "build_catalog [entry_in ''a'' (JStr ''constructor''), entry_in ''b'' (JStr ''constructor'')]
     = Inl TypeError
   \<and> api_info [] [entry_in ''a'' (JStr ''constructor''), entry_in ''b'' (JStr ''constructor'')]
     = Inl TypeError"
  by (simp add: api_info_def build_catalog_def add_module_def entry_in_def
      object_prototype_keys_def)

text \<open>
  Claim C9, as stated: entries without a category are grouped under a documented
  default label. There is none: the two entries lie in one category whose name is the
  undefined value, which the JSON text omits.
\<close>

theorem unset_category_has_no_label:
  "build_catalog [entry_in ''a'' JUndefined, entry_in ''b'' JUndefined]
     = Inr [\<lparr>category_name = JUndefined,
             items = [item_of (entry_in ''a'' JUndefined), item_of (entry_in ''b'' JUndefined)]\<rparr>]
   \<and> category_json \<lparr>category_name = JUndefined,
        items = [item_of (entry_in ''a'' JUndefined), item_of (entry_in ''b'' JUndefined)]\<rparr>
     = JObj [(''name'', JUndefined),
             (''items'', JArr [item_json (item_of (entry_in ''a'' JUndefined)),
                               item_json (item_of (entry_in ''b'' JUndefined))])]"
  by (simp add: build_catalog_def add_module_def entry_in_def object_prototype_keys_def
      object_values_def is_array_index_def category_json_def)

text \<open>
  Claim C9, amended: adding an entry without a category never throws. When no category
  of the list has the key of a member inherited from \<^verbatim>\<open>Object.prototype\<close>, the catalog is
  built and has exactly one category of the key \<^verbatim>\<open>undefined\<close>; it holds, in bind order,
  the entries whose category turns into that key, among them every entry without a
  category; its name is the undefined value when all of them lack a category.
\<close>

theorem unset_category_grouped:
  "(category m = JUndefined \<longrightarrow> (\<exists>cats'. add_module m cats = Inr cats'))
   \<and> (catalog_safe ms \<and> (\<exists>m \<in> set ms. category m = JUndefined) \<longrightarrow>
        (\<exists>cs c. build_catalog ms = Inr cs
           \<and> filter (\<lambda>c. to_string (category_name c) = ''undefined'') cs = [c]
           \<and> items c = map item_of (members ''undefined'' ms)
           \<and> (\<forall>m \<in> set ms. category m = JUndefined \<longrightarrow> item_of m \<in> set (items c))
           \<and> ((\<forall>m \<in> set ms. category_key m = ''undefined'' \<longrightarrow> category m = JUndefined)
                \<longrightarrow> category_name c = JUndefined)))"
proof -
  have a: "\<exists>cats'. add_module m cats = Inr cats'" if "category m = JUndefined"
  proof -
    have "category_key m = ''undefined''"
      using that by (simp add: category_key_def)
    then show ?thesis
      using add_module_returns [of m cats] undefined_key_safe by simp
  qed
  have b: "\<exists>cs c. build_catalog ms = Inr cs
           \<and> filter (\<lambda>c. to_string (category_name c) = ''undefined'') cs = [c]
           \<and> items c = map item_of (members ''undefined'' ms)
           \<and> (\<forall>m \<in> set ms. category m = JUndefined \<longrightarrow> item_of m \<in> set (items c))
           \<and> ((\<forall>m \<in> set ms. category_key m = ''undefined'' \<longrightarrow> category m = JUndefined)
                \<longrightarrow> category_name c = JUndefined)"
    if safe: "catalog_safe ms" and ex: "\<exists>m \<in> set ms. category m = JUndefined"
  proof -
    from ex obtain m0 where m0: "m0 \<in> set ms" "category m0 = JUndefined"
      by blast
    then have k0: "category_key m0 = ''undefined''"
      by (simp add: category_key_def)
    obtain cs c where g: "build_catalog ms = Inr cs"
      "filter (\<lambda>c. to_string (category_name c) = ''undefined'') cs = [c]"
      "items c = map item_of (members ''undefined'' ms)"
      "category_name c = category (hd (members ''undefined'' ms))"
      using category_grouping [OF safe m0(1)] unfolding k0 by blast
    have i: "item_of m \<in> set (items c)" if "m \<in> set ms" "category m = JUndefined" for m
      using that by (simp add: g(3) members_def category_key_def)
    have "members ''undefined'' ms \<noteq> []"
      using m0 k0 by (auto simp: members_def filter_empty_conv)
    then have "hd (members ''undefined'' ms) \<in> set (members ''undefined'' ms)"
      by (rule hd_in_set)
    then have n: "category_name c = JUndefined"
      if "\<forall>m \<in> set ms. category_key m = ''undefined'' \<longrightarrow> category m = JUndefined"
      using that by (simp add: g(4) members_def)
    from g(1,2,3) i n show ?thesis
      by blast
  qed
  from a b show ?thesis
    by blast
qed

text \<open>Two entries without a category around one of the category \<^verbatim>\<open>util\<close>.\<close>

theorem unset_category_grouped_witness:
  "catalog_safe [entry_in ''a'' JUndefined, entry_in ''x'' (JStr ''util''), entry_in ''b'' JUndefined]
   \<and> (\<exists>cs c. build_catalog
                 [entry_in ''a'' JUndefined, entry_in ''x'' (JStr ''util''), entry_in ''b'' JUndefined]
               = Inr cs
          \<and> filter (\<lambda>c. to_string (category_name c) = ''undefined'') cs = [c]
          \<and> items c = [item_of (entry_in ''a'' JUndefined), item_of (entry_in ''b'' JUndefined)]
          \<and> category_name c = JUndefined)"
proof -
  let ?ms = "[entry_in ''a'' JUndefined, entry_in ''x'' (JStr ''util''), entry_in ''b'' JUndefined]"
  have s: "catalog_safe ?ms"
    by (simp add: catalog_safe_def category_key_def entry_in_def object_prototype_keys_def)
  have e: "\<exists>m \<in> set ?ms. category m = JUndefined"
    by (simp add: entry_in_def)
  have m: "members ''undefined'' ?ms = [entry_in ''a'' JUndefined, entry_in ''b'' JUndefined]"
    by (simp add: members_def category_key_def entry_in_def)
  have u: "\<forall>m \<in> set ?ms. category_key m = ''undefined'' \<longrightarrow> category m = JUndefined"
    by (simp add: category_key_def entry_in_def)
  show ?thesis
    using s e u unset_category_grouped [of "entry_in ''a'' JUndefined" "[]" ?ms]
    by (simp add: m) blast
qed

end
